theory Spec2Isabelle
  imports Complex_Main "HOL-Library.Word"
begin

section \<open>Values of the program\<close>

text \<open>
  The server (\<^verbatim>\<open>src/server/main.py\<close>) receives JSON payloads, keeps the results of
  image analyses in an LRU cache with a time to live, and calls a remote model through a
  retry loop. JSON values are the Python values \<^verbatim>\<open>json.loads\<close> produces; a dict keeps
  its items in insertion order. Python floats (timestamps, delays) are idealised as reals.
\<close>

datatype json =
    JNull
  | JBool bool
  | JNum real
  | JStr string
  | JArr "json list"
  | JObj "(string \<times> json) list"

text \<open>Python's truth value of a JSON value, as \<^verbatim>\<open>if x:\<close> and \<^verbatim>\<open>not x\<close> test it.\<close>

fun truthy :: "json \<Rightarrow> bool" where
  "truthy JNull = False"
| "truthy (JBool b) = b"
| "truthy (JNum r) = (r \<noteq> 0)"
| "truthy (JStr s) = (s \<noteq> [])"
| "truthy (JArr xs) = (xs \<noteq> [])"
| "truthy (JObj kvs) = (kvs \<noteq> [])"

text \<open>
  Exceptions. \<open>ValueError\<close> stands for the class and its subclasses (\<^verbatim>\<open>binascii.Error\<close>,
  \<^verbatim>\<open>json.JSONDecodeError\<close>), which is all \<^verbatim>\<open>except ValueError\<close> can tell apart; its
  argument is \<^verbatim>\<open>str(exc)\<close>. \<open>OtherException\<close> is any other subclass of \<^verbatim>\<open>Exception\<close>,
  by class name. The messages of exceptions the interpreter raises itself are not kept.
\<close>

datatype exn =
    ValueError string
  | RuntimeError string
  | AttributeError
  | KeyError
  | OtherException string

fun is_ValueError :: "exn \<Rightarrow> bool" where
  "is_ValueError (ValueError m) = True"
| "is_ValueError e = False"

section \<open>The ordered dictionary under the cache\<close>

text \<open>
  \<^verbatim>\<open>collections.OrderedDict\<close> as an association list, oldest item first. Only the
  operations the cache uses are modelled, each with the \<^verbatim>\<open>KeyError\<close> Python raises.
\<close>

type_synonym 'v ordered_dict = "(string \<times> 'v) list"

definition od_contains :: "string \<Rightarrow> 'v ordered_dict \<Rightarrow> bool" where
  "od_contains k d = (k \<in> set (map fst d))"

definition od_getitem :: "string \<Rightarrow> 'v ordered_dict \<Rightarrow> exn + 'v" where
  "od_getitem k d = (case map_of d k of None \<Rightarrow> Inl KeyError | Some v \<Rightarrow> Inr v)"

definition od_delitem :: "string \<Rightarrow> 'v ordered_dict \<Rightarrow> exn + 'v ordered_dict" where
  "od_delitem k d =
     (if od_contains k d then Inr (filter (\<lambda>p. fst p \<noteq> k) d) else Inl KeyError)"

definition od_move_to_end :: "string \<Rightarrow> 'v ordered_dict \<Rightarrow> exn + 'v ordered_dict" where
  "od_move_to_end k d =
     (case map_of d k of
        None \<Rightarrow> Inl KeyError
      | Some v \<Rightarrow> Inr (filter (\<lambda>p. fst p \<noteq> k) d @ [(k, v)]))"

definition od_setitem :: "string \<Rightarrow> 'v \<Rightarrow> 'v ordered_dict \<Rightarrow> 'v ordered_dict" where
  "od_setitem k v d =
     (if od_contains k d then map (\<lambda>p. if fst p = k then (k, v) else p) d
      else d @ [(k, v)])"

definition od_popitem_first ::
  "'v ordered_dict \<Rightarrow> exn + ((string \<times> 'v) \<times> 'v ordered_dict)" where
  "od_popitem_first d = (case d of [] \<Rightarrow> Inl KeyError | p # ps \<Rightarrow> Inr (p, ps))"

section \<open>LRUCache\<close>

text \<open>
  \<^verbatim>\<open>class LRUCache\<close>: \<open>entries\<close> is \<^verbatim>\<open>self._cache\<close>, mapping a key to the pair of
  the value and the time it was stored. \<^verbatim>\<open>time.time()\<close> is the argument \<open>now\<close>.
  A method returns its result or the exception it raises, and the cache as it left it.
\<close>

record LRUCache =
  entries :: "(json \<times> real) ordered_dict"
  max_size :: int
  ttl_seconds :: int

definition LRUCache_init :: "int \<Rightarrow> int \<Rightarrow> LRUCache" where
  "LRUCache_init m t = \<lparr>entries = [], max_size = m, ttl_seconds = t\<rparr>"

definition LRUCache_get :: "real \<Rightarrow> string \<Rightarrow> LRUCache \<Rightarrow> (exn + json option) \<times> LRUCache" where
  "LRUCache_get now key c =
     (if \<not> od_contains key (entries c) then (Inr None, c)
      else case od_getitem key (entries c) of
        Inl e \<Rightarrow> (Inl e, c)
      | Inr (val, timestamp) \<Rightarrow>
          if now - timestamp > real_of_int (ttl_seconds c) then
            (case od_delitem key (entries c) of
               Inl e \<Rightarrow> (Inl e, c)
             | Inr d \<Rightarrow> (Inr None, c\<lparr>entries := d\<rparr>))
          else
            (case od_move_to_end key (entries c) of
               Inl e \<Rightarrow> (Inl e, c)
             | Inr d \<Rightarrow> (Inr (Some val), c\<lparr>entries := d\<rparr>)))"

text \<open>
  The eviction loop of \<^verbatim>\<open>set\<close>:
  \<^verbatim>\<open>while len(self._cache) > self._max_size: self._cache.popitem(last=False)\<close>.
\<close>

function evict :: "int \<Rightarrow> 'v ordered_dict \<Rightarrow> (exn + unit) \<times> 'v ordered_dict" where
  "evict m d =
     (if int (length d) > m then
        (case od_popitem_first d of
           Inl e \<Rightarrow> (Inl e, d)
         | Inr (p, d') \<Rightarrow> evict m d')
      else (Inr (), d))"
  by pat_completeness auto
termination
  by (relation "measure (\<lambda>(m, d). length d)")
     (auto simp: od_popitem_first_def split: list.splits)

declare evict.simps [simp del]

definition LRUCache_set :: "real \<Rightarrow> string \<Rightarrow> json \<Rightarrow> LRUCache \<Rightarrow> (exn + unit) \<times> LRUCache" where
  "LRUCache_set now key val c =
     (case (if od_contains key (entries c) then od_move_to_end key (entries c)
            else Inr (entries c)) of
        Inl e \<Rightarrow> (Inl e, c)
      | Inr d \<Rightarrow>
          (case evict (max_size c) (od_setitem key (val, now) d) of
             (r, d') \<Rightarrow> (r, c\<lparr>entries := d'\<rparr>)))"

text \<open>Sequences of cache operations, each at the time the clock shows when it runs.\<close>

datatype cache_op = Get real string | Set real string json

fun apply_op :: "cache_op \<Rightarrow> LRUCache \<Rightarrow> LRUCache" where
  "apply_op (Get now k) c = snd (LRUCache_get now k c)"
| "apply_op (Set now k v) c = snd (LRUCache_set now k v c)"

fun op_raises :: "cache_op \<Rightarrow> LRUCache \<Rightarrow> bool" where
  "op_raises (Get now k) c = isl (fst (LRUCache_get now k c))"
| "op_raises (Set now k v) c = isl (fst (LRUCache_set now k v c))"

definition run_ops :: "cache_op list \<Rightarrow> LRUCache \<Rightarrow> LRUCache" where
  "run_ops ops c = fold apply_op ops c"

definition keys :: "LRUCache \<Rightarrow> string list" where
  "keys c = map fst (entries c)"


section \<open>Outside collaborators\<close>

type_synonym bytes = "8 word list"

text \<open>\<^verbatim>\<open>types.Part.from_bytes\<close>, \<^verbatim>\<open>types.Part.from_text\<close> and \<^verbatim>\<open>types.Content\<close>.\<close>

datatype part = Part_from_bytes bytes string | Part_from_text string

record content =
  role :: string
  parts :: "part list"

text \<open>
  What \<^verbatim>\<open>_extract_text\<close> can see of a response of the remote model: \<open>resp_text\<close> is
  \<^verbatim>\<open>getattr(response, "text", None)\<close>, and \<open>resp_candidates_text\<close> is what evaluating
  \<^verbatim>\<open>response.candidates[0].content.parts[0].text\<close> does: it raises or yields a value,
  where \<open>None\<close> is Python's \<^verbatim>\<open>None\<close>.
\<close>

record response =
  resp_text :: "string option"
  resp_candidates_text :: "exn + string option"

text \<open>
  \<^verbatim>\<open>MAX_IMAGE_BYTES\<close> is an environment string: unset or empty (\<open>NoLimit\<close>), a string
  \<^verbatim>\<open>int()\<close> rejects with a \<^verbatim>\<open>ValueError\<close> of the given message (\<open>BadLimit\<close>), or a
  number (\<open>Limit\<close>).
\<close>

datatype limit = NoLimit | BadLimit string | Limit int

text \<open>
  Library functions, configuration and the remote model are parameters of the model.
  \<open>remote n model contents\<close> is what the call number \<open>n\<close> (from 0) of
  \<^verbatim>\<open>client.models.generate_content\<close> does. The prompt builders of
  \<^verbatim>\<open>src/server/prompts.py\<close> only format strings from a dict and are parameters too.
\<close>

record env =
  b64decode :: "json \<Rightarrow> exn + bytes"
  sha256_hexdigest :: "bytes \<Rightarrow> string"
  json_loads :: "string \<Rightarrow> exn + json"
  str_lower :: "string \<Rightarrow> string"
  str_strip :: "string \<Rightarrow> string"
  build_analyze_prompt :: "(string \<times> json) list \<Rightarrow> string"
  build_chat_prompt :: "(string \<times> json) list \<Rightarrow> string"
  MAX_IMAGE_BYTES :: limit
  GEMINI_MODEL :: string
  GEMINI_API_KEY :: "string option"
  remote :: "nat \<Rightarrow> string \<Rightarrow> content list \<Rightarrow> exn + response"

section \<open>The state of the process\<close>

text \<open>The lines the program prints, by format string.\<close>

datatype diag =
    DebugReceived nat
  | DebugContext json
  | DebugMessage nat string bool bool
  | DebugImage nat nat string
  | WarningDecode nat exn
  | DebugAdding nat string
  | DebugTotal nat
  | ErrorTraceback exn

text \<open>
  The calls the program makes, in order: \<open>Sleep d\<close> is \<^verbatim>\<open>time.sleep(d)\<close>, \<open>Generate\<close> a
  call of the remote model, \<open>Print\<close> a printed line. \<open>Invoke\<close> marks each call
  \<^verbatim>\<open>func()\<close> of \<^verbatim>\<open>_call_with_retry\<close>; the program prints nothing there, the mark
  only makes the number of attempts visible.
\<close>

datatype event = Invoke | Sleep real | Generate string "content list" | Print diag

fun is_Generate :: "event \<Rightarrow> bool" where
  "is_Generate (Generate m cs) = True"
| "is_Generate ev = False"


record world =
  analysis_cache :: LRUCache
  client :: bool
  clock :: real
  trace :: "event list"

definition emit :: "event \<Rightarrow> world \<Rightarrow> world" where
  "emit ev w = w\<lparr>trace := trace w @ [ev]\<rparr>"

definition sleep :: "real \<Rightarrow> world \<Rightarrow> world" where
  "sleep d w = emit (Sleep d) (w\<lparr>clock := clock w + d\<rparr>)"

definition get_client :: "env \<Rightarrow> world \<Rightarrow> (exn + unit) \<times> world" where
  "get_client E w =
     (if \<not> client w then
        (case GEMINI_API_KEY E of
           None \<Rightarrow> (Inl (RuntimeError ''GEMINI_API_KEY is not set''), w)
         | Some api_key \<Rightarrow>
             if api_key = [] then (Inl (RuntimeError ''GEMINI_API_KEY is not set''), w)
             else (Inr (), w\<lparr>client := True\<rparr>))
      else (Inr (), w))"

definition generate_content :: "env \<Rightarrow> content list \<Rightarrow> world \<Rightarrow> (exn + response) \<times> world" where
  "generate_content E contents w =
     (remote E (length (filter is_Generate (trace w))) (GEMINI_MODEL E) contents,
      emit (Generate (GEMINI_MODEL E) contents) w)"

section \<open>Responses and the retry loop\<close>

text \<open>
  The triple \<^verbatim>\<open>_json_response\<close> returns, with the payload before \<^verbatim>\<open>json.dumps\<close>
  as the body; the header is always \<^verbatim>\<open>Content-Type: application/json\<close>.
\<close>

record http_response =
  body :: json
  status :: nat

definition json_response :: "json \<Rightarrow> nat \<Rightarrow> http_response" where
  "json_response payload st = \<lparr>body = payload, status = st\<rparr>"

definition error_response :: "string \<Rightarrow> string \<Rightarrow> nat \<Rightarrow> http_response" where
  "error_response code message st =
     json_response
       (JObj [(''error'', JStr code), (''message'', JStr message), (''retryable'', JBool True)])
       st"

text \<open>
  \<^verbatim>\<open>_call_with_retry\<close>: the loop \<^verbatim>\<open>for attempt in range(max_retries + 1)\<close> from
  the state (\<open>attempt\<close>, \<open>delay\<close>), and the function starting it at \<open>(0, 0.8)\<close>.
\<close>

function retry_loop ::
  "(world \<Rightarrow> (exn + 'a) \<times> world) \<Rightarrow> int \<Rightarrow> int \<Rightarrow> real \<Rightarrow> world \<Rightarrow> (exn + 'a) \<times> world" where
  "retry_loop func max_retries attempt delay w =
     (if attempt < max_retries + 1 then
        (case func (emit Invoke w) of
           (Inr v, w') \<Rightarrow> (Inr v, w')
         | (Inl e, w') \<Rightarrow>
             if attempt = max_retries then (Inl e, w')
             else retry_loop func max_retries (attempt + 1) (delay * 2) (sleep delay w'))
      else (Inl (RuntimeError ''unreachable''), w))"
  by pat_completeness auto
termination
  by (relation "measure (\<lambda>(func, max_retries, attempt, delay, w). nat (max_retries + 1 - attempt))")
     auto

declare retry_loop.simps [simp del]

definition call_with_retry ::
  "(world \<Rightarrow> (exn + 'a) \<times> world) \<Rightarrow> int \<Rightarrow> world \<Rightarrow> (exn + 'a) \<times> world" where
  "call_with_retry func max_retries w = retry_loop func max_retries 0 (8 / 10) w"

section \<open>Reading the model's answer\<close>

definition extract_text :: "response \<Rightarrow> string option" where
  "extract_text r =
     (if (case resp_text r of None \<Rightarrow> False | Some t \<Rightarrow> t \<noteq> []) then resp_text r
      else case resp_candidates_text r of
        Inl e \<Rightarrow> Some []
      | Inr v \<Rightarrow> v)"

text \<open>\<^verbatim>\<open>str.find\<close> and \<^verbatim>\<open>str.rfind\<close> of one character, and the slice \<^verbatim>\<open>text[i:j]\<close>
  for \<open>0 \<le> i\<close> and \<open>0 \<le> j\<close>.\<close>

definition str_find :: "char \<Rightarrow> string \<Rightarrow> int" where
  "str_find c s = (if c \<in> set s then int (length (takeWhile (\<lambda>x. x \<noteq> c) s)) else - 1)"

definition str_rfind :: "char \<Rightarrow> string \<Rightarrow> int" where
  "str_rfind c s =
     (if c \<in> set s then int (length s) - 1 - int (length (takeWhile (\<lambda>x. x \<noteq> c) (rev s)))
      else - 1)"

definition slice :: "string \<Rightarrow> int \<Rightarrow> int \<Rightarrow> string" where
  "slice s i j = take (nat j - nat i) (drop (nat i) s)"

definition extract_json :: "env \<Rightarrow> string option \<Rightarrow> exn + json" where
  "extract_json E text' =
     (case text' of
        None \<Rightarrow> Inl AttributeError
      | Some t \<Rightarrow>
          (let start = str_find CHR ''{'' t; end' = str_rfind CHR ''}'' t
           in if start = - 1 \<or> end' = - 1 \<or> end' \<le> start
              then Inl (ValueError ''No JSON object found in response'')
              else json_loads E (slice t start (end' + 1))))"

definition detect_mime_type :: "bytes \<Rightarrow> string" where
  "detect_mime_type image_bytes =
     (if take 8 image_bytes = [0x89, 0x50, 0x4E, 0x47, 0x0D, 0x0A, 0x1A, 0x0A] then ''image/png''
      else if take 2 image_bytes = [0xFF, 0xD8] then ''image/jpeg''
      else if take 6 image_bytes = [0x47, 0x49, 0x46, 0x38, 0x37, 0x61]
            \<or> take 6 image_bytes = [0x47, 0x49, 0x46, 0x38, 0x39, 0x61] then ''image/gif''
      else if take 4 image_bytes = [0x52, 0x49, 0x46, 0x46]
            \<and> take 4 (drop 8 image_bytes) = [0x57, 0x45, 0x42, 0x50] then ''image/webp''
      else ''image/jpeg'')"

text \<open>\<^verbatim>\<open>d.get(key)\<close> of a dict: \<^verbatim>\<open>None\<close> when the key is missing.\<close>

definition dict_get :: "(string \<times> json) list \<Rightarrow> string \<Rightarrow> json" where
  "dict_get d k = (case map_of d k of None \<Rightarrow> JNull | Some v \<Rightarrow> v)"


section \<open>The analyze operation\<close>

text \<open>
  \<^verbatim>\<open>_analyze\<close>, in two parts: \<open>analyze_remote\<close> is the code after the cache lookup
  has not returned (the prompt, the client, the remote call, the parsing, the store),
  \<open>analyze\<close> the checks and the lookup before it.
\<close>

definition analyze_remote ::
  "env \<Rightarrow> (string \<times> json) list \<Rightarrow> bytes \<Rightarrow> string \<Rightarrow> world \<Rightarrow> (exn + json) \<times> world" where
  "analyze_remote E payload image_bytes image_hash w =
     (let prompt = build_analyze_prompt E payload
      in case get_client E w of
        (Inl e, w1) \<Rightarrow> (Inl e, w1)
      | (Inr u, w1) \<Rightarrow>
          (let mime_type = detect_mime_type image_bytes;
               parts' = [Part_from_bytes image_bytes mime_type, Part_from_text prompt]
           in case generate_content E [\<lparr>role = ''user'', parts = parts'\<rparr>] w1 of
             (Inl e, w2) \<Rightarrow> (Inl e, w2)
           | (Inr resp, w2) \<Rightarrow>
               (case extract_json E (extract_text resp) of
                  Inl e \<Rightarrow> (Inl e, w2)
                | Inr data \<Rightarrow>
                    (case LRUCache_set (clock w2) image_hash data (analysis_cache w2) of
                       (Inl e, c) \<Rightarrow> (Inl e, w2\<lparr>analysis_cache := c\<rparr>)
                     | (Inr u', c) \<Rightarrow> (Inr data, w2\<lparr>analysis_cache := c\<rparr>)))))"

definition analyze :: "env \<Rightarrow> (string \<times> json) list \<Rightarrow> world \<Rightarrow> (exn + json) \<times> world" where
  "analyze E payload w =
     (let image_base64 = dict_get payload ''image_base64''
      in if \<not> truthy image_base64 then (Inl (ValueError ''image_base64 is required''), w)
         else case b64decode E image_base64 of
           Inl e \<Rightarrow> (Inl e, w)
         | Inr image_bytes \<Rightarrow>
             (case (case MAX_IMAGE_BYTES E of
                      NoLimit \<Rightarrow> Inr ()
                    | BadLimit m \<Rightarrow> Inl (ValueError m)
                    | Limit max_bytes \<Rightarrow>
                        if int (length image_bytes) > max_bytes
                        then Inl (ValueError ''image exceeds max size'') else Inr ()) of
                Inl e \<Rightarrow> (Inl e, w)
              | Inr u \<Rightarrow>
                  (let image_hash = sha256_hexdigest E image_bytes
                   in case LRUCache_get (clock w) image_hash (analysis_cache w) of
                     (Inl e, c) \<Rightarrow> (Inl e, w\<lparr>analysis_cache := c\<rparr>)
                   | (Inr cached, c) \<Rightarrow>
                       (case cached of
                          None \<Rightarrow>
                            analyze_remote E payload image_bytes image_hash
                              (w\<lparr>analysis_cache := c\<rparr>)
                        | Some v \<Rightarrow>
                            if truthy v then (Inr v, w\<lparr>analysis_cache := c\<rparr>)
                            else analyze_remote E payload image_bytes image_hash
                                   (w\<lparr>analysis_cache := c\<rparr>)))))"

section \<open>The chat operation\<close>

text \<open>\<^verbatim>\<open>x.lower()\<close> and \<^verbatim>\<open>x.strip()\<close>: an \<^verbatim>\<open>AttributeError\<close> unless \<open>x\<close> is a string.\<close>

fun str_method :: "(string \<Rightarrow> string) \<Rightarrow> json \<Rightarrow> exn + string" where
  "str_method f (JStr s) = Inr (f s)"
| "str_method f v = Inl AttributeError"

text \<open>
  One round of the loop \<^verbatim>\<open>for i, msg in enumerate(messages)\<close>: the content to append,
  if any. \<^verbatim>\<open>msg.get\<close> raises an \<^verbatim>\<open>AttributeError\<close> unless \<open>msg\<close> is a dict.
\<close>

definition chat_message :: "env \<Rightarrow> nat \<Rightarrow> json \<Rightarrow> world \<Rightarrow> (exn + content option) \<times> world" where
  "chat_message E i msg w =
     (case msg of
        JObj m \<Rightarrow>
          (case str_method (str_lower E)
                  (case map_of m ''role'' of None \<Rightarrow> JStr ''user'' | Some r \<Rightarrow> r) of
             Inl e \<Rightarrow> (Inl e, w)
           | Inr role0 \<Rightarrow>
               (let role' = (if role0 = ''assistant'' then ''model'' else role0)
                in case str_method (str_strip E)
                          (case map_of m ''content'' of None \<Rightarrow> JStr [] | Some t \<Rightarrow> t) of
                  Inl e \<Rightarrow> (Inl e, w)
                | Inr content_text \<Rightarrow>
                    (let image_base64 = dict_get m ''image_base64'';
                         w1 = emit (Print (DebugMessage i role' (content_text \<noteq> [])
                                             (truthy image_base64))) w;
                         (parts1, w2) =
                           (if truthy image_base64 then
                              (case b64decode E image_base64 of
                                 Inr image_bytes \<Rightarrow>
                                   (let mime_type = detect_mime_type image_bytes
                                    in ([Part_from_bytes image_bytes mime_type],
                                        emit (Print (DebugImage i (length image_bytes) mime_type)) w1))
                               | Inl e \<Rightarrow> ([], emit (Print (WarningDecode i e)) w1))
                            else ([], w1));
                         parts2 = (if content_text \<noteq> [] then parts1 @ [Part_from_text content_text]
                                   else parts1)
                     in if parts2 \<noteq> [] then
                          (Inr (Some \<lparr>role = role', parts = parts2\<rparr>),
                           emit (Print (DebugAdding (length parts2) role')) w2)
                        else (Inr None, w2))))
      | _ \<Rightarrow> (Inl AttributeError, w))"

fun chat_loop ::
  "env \<Rightarrow> nat \<Rightarrow> json list \<Rightarrow> content list \<Rightarrow> world \<Rightarrow> (exn + content list) \<times> world" where
  "chat_loop E i [] contents w = (Inr contents, w)"
| "chat_loop E i (msg # msgs) contents w =
     (case chat_message E i msg w of
        (Inl e, w') \<Rightarrow> (Inl e, w')
      | (Inr None, w') \<Rightarrow> chat_loop E (Suc i) msgs contents w'
      | (Inr (Some c), w') \<Rightarrow> chat_loop E (Suc i) msgs (contents @ [c]) w')"

definition chat :: "env \<Rightarrow> (string \<times> json) list \<Rightarrow> world \<Rightarrow> (exn + json) \<times> world" where
  "chat E payload w =
     (case dict_get payload ''messages'' of
        JArr messages \<Rightarrow>
          (let context = (if truthy (dict_get payload ''plant_context'')
                          then dict_get payload ''plant_context'' else JObj [])
           in case get_client E w of
             (Inl e, w1) \<Rightarrow> (Inl e, w1)
           | (Inr u, w1) \<Rightarrow>
               (let w2 = emit (Print (DebugReceived (length messages))) w1;
                    w3 = emit (Print (DebugContext context)) w2
                in case context of
                  JObj ctx \<Rightarrow>
                    (let system_prompt = build_chat_prompt E ctx;
                         contents0 =
                           (if messages \<noteq> [] then
                              [\<lparr>role = ''user'', parts = [Part_from_text system_prompt]\<rparr>,
                               \<lparr>role = ''model'', parts = [Part_from_text
                                  ''Understood. I'll provide plant care assistance with JSON responses.'']\<rparr>]
                            else [])
                     in case chat_loop E 0 messages contents0 w3 of
                       (Inl e, w4) \<Rightarrow> (Inl e, w4)
                     | (Inr contents, w4) \<Rightarrow>
                         (let w5 = emit (Print (DebugTotal (length contents))) w4
                          in case generate_content E contents w5 of
                            (Inl e, w6) \<Rightarrow> (Inl e, w6)
                          | (Inr resp, w6) \<Rightarrow> (extract_json E (extract_text resp), w6)))
                | _ \<Rightarrow> (Inl AttributeError, w3)))
      | _ \<Rightarrow> (Inl (ValueError ''messages must be a list''), w))"

section \<open>The request handler\<close>

text \<open>
  A request as \<^verbatim>\<open>handle\<close> reads it: \<open>req_json\<close> is \<^verbatim>\<open>request.get_json(silent=True)\<close>,
  \<open>None\<close> when the body is not JSON.
\<close>

record request =
  req_method :: string
  req_path :: string
  req_json :: "json option"

text \<open>The body of the \<^verbatim>\<open>try\<close> block of \<^verbatim>\<open>handle\<close>.\<close>

definition dispatch ::
  "env \<Rightarrow> string \<Rightarrow> (string \<times> json) list \<Rightarrow> world \<Rightarrow> (exn + http_response) \<times> world" where
  "dispatch E path payload w =
     (if path = ''/analyze'' then
        (case call_with_retry (analyze E payload) 2 w of
           (Inl e, w') \<Rightarrow> (Inl e, w')
         | (Inr data, w') \<Rightarrow> (Inr (json_response data 200), w'))
      else if path = ''/chat'' then
        (case call_with_retry (chat E payload) 2 w of
           (Inl e, w') \<Rightarrow> (Inl e, w')
         | (Inr data, w') \<Rightarrow> (Inr (json_response data 200), w'))
      else (Inr (error_response ''not_found'' ''Unknown endpoint'' 404), w))"

definition handle :: "env \<Rightarrow> request \<Rightarrow> world \<Rightarrow> http_response \<times> world" where
  "handle E request w =
     (let path = (if req_path request = [] then ''/'' else req_path request)
      in if req_method request \<noteq> ''POST'' then
           (json_response (JObj [(''error'', JStr ''method_not_allowed'')]) 405, w)
         else case req_json request of
           Some (JObj payload) \<Rightarrow>
             (case dispatch E path payload w of
                (Inr r, w') \<Rightarrow> (r, w')
              | (Inl (ValueError m), w') \<Rightarrow> (error_response ''bad_request'' m 400, w')
              | (Inl exc, w') \<Rightarrow>
                  (error_response ''gemini_failed'' ''Gemini request failed. Please retry.'' 502,
                   emit (Print (ErrorTraceback exc)) w'))
         | _ \<Rightarrow> (error_response ''invalid_json'' ''Request body must be JSON'' 400, w))"

section \<open>Auxiliary notions for the statements\<close>

text \<open>The size invariant of a cache of capacity \<open>cap\<close>.\<close>

definition cache_inv :: "int \<Rightarrow> LRUCache \<Rightarrow> bool" where
  "cache_inv cap c = (max_size c = cap \<and> int (length (entries c)) \<le> cap)"



text \<open>
  The schedule the specification gives for the retry executor with first delay \<open>d\<close>:
  \<open>attempt_world func d w i\<close> is the state in which attempt number \<open>i\<close> (from 0) of
  \<open>func\<close> starts when every attempt before it has failed: attempt 0 starts at once, and
  attempt \<open>i + 1\<close> after a sleep of \<open>d * 2 ^ i\<close> that follows the failure of attempt \<open>i\<close>.
\<close>

fun attempt_world :: "(world \<Rightarrow> (exn + 'a) \<times> world) \<Rightarrow> real \<Rightarrow> world \<Rightarrow> nat \<Rightarrow> world" where
  "attempt_world func d w 0 = emit Invoke w"
| "attempt_world func d w (Suc i) =
     emit Invoke (sleep (d * 2 ^ i) (snd (func (attempt_world func d w i))))"

text \<open>
  The process after start with the default configuration (\<^verbatim>\<open>CACHE_MAX_SIZE\<close> 100,
  \<^verbatim>\<open>CACHE_TTL_SECONDS\<close> 3600), the clock at 0.
\<close>

definition initial_world :: world where
  "initial_world =
     \<lparr>analysis_cache = LRUCache_init 100 3600, client = False, clock = 0, trace = []\<rparr>"

text \<open>
  An environment for the concrete examples: the library functions are given on the inputs
  the examples use (\<^verbatim>\<open>AQID\<close> is the base64 encoding of the bytes 1, 2, 3, and the digest
  is their SHA-256; the strings of the examples are in lower case with no blanks around
  them; \<open>healthy_text\<close> is the text of a JSON object with one key), and the remote model
  answers every call with \<open>answer\<close>.
\<close>

definition healthy_text :: string where
  \<open>healthy_text = ''{"status": "healthy"}''\<close>

definition example_env :: "response \<Rightarrow> env" where
  \<open>example_env answer =
     \<lparr>b64decode =
        (\<lambda>v. case v of
           JStr s \<Rightarrow> if s = ''AQID'' then Inr [1, 2, 3] else Inl (ValueError ''Incorrect padding'')
         | _ \<Rightarrow> Inl (OtherException ''TypeError'')),
      sha256_hexdigest =
        (\<lambda>bs. if bs = [1, 2, 3]
              then ''039058c6f2c0cb492c533b0a4d14ef77cc0f78abccced5287d84a1a2011cfb81'' else []),
      json_loads =
        (\<lambda>s. if s = ''{}'' then Inr (JObj [])
             else if s = healthy_text then Inr (JObj [(''status'', JStr ''healthy'')])
             else Inl (ValueError ''Expecting value'')),
      str_lower = (\<lambda>s. s),
      str_strip = (\<lambda>s. s),
      build_analyze_prompt = (\<lambda>payload. ''analyze''),
      build_chat_prompt = (\<lambda>context. ''chat''),
      MAX_IMAGE_BYTES = NoLimit,
      GEMINI_MODEL = ''gemini-3-flash-preview'',
      GEMINI_API_KEY = Some ''key'',
      remote = (\<lambda>n model contents. Inr answer)\<rparr>\<close>

definition text_answer :: "string \<Rightarrow> response" where
  "text_answer t = \<lparr>resp_text = Some t, resp_candidates_text = Inr (Some t)\<rparr>"

definition analyze_request :: "(string \<times> json) list \<Rightarrow> request" where
  "analyze_request payload =
     \<lparr>req_method = ''POST'', req_path = ''/analyze'', req_json = Some (JObj payload)\<rparr>"

definition chat_request :: "(string \<times> json) list \<Rightarrow> request" where
  "chat_request payload =
     \<lparr>req_method = ''POST'', req_path = ''/chat'', req_json = Some (JObj payload)\<rparr>"

text \<open>
  The analyze request of the examples, the fingerprint of its image, and the state in
  which the first handling of it leaves the process started at \<open>initial_world\<close> when the
  remote model answered with the JSON object \<open>v\<close>.
\<close>

definition image_request :: request where
  "image_request = analyze_request [(''image_base64'', JStr ''AQID'')]"

definition image_hash' :: string where
  "image_hash' = ''039058c6f2c0cb492c533b0a4d14ef77cc0f78abccced5287d84a1a2011cfb81''"

definition image_call :: event where
  "image_call =
     Generate ''gemini-3-flash-preview''
       [\<lparr>role = ''user'',
         parts = [Part_from_bytes [1, 2, 3] ''image/jpeg'', Part_from_text ''analyze'']\<rparr>]"

definition cached_world :: "json \<Rightarrow> world" where
  "cached_world v =
     \<lparr>analysis_cache = \<lparr>entries = [(image_hash', (v, 0))], max_size = 100, ttl_seconds = 3600\<rparr>,
      client = True, clock = 0, trace = [Invoke, image_call]\<rparr>"

text \<open>
  A computation is blind to the cache when replacing the cache before it runs changes
  nothing but the cache it leaves, which is the replacement.
\<close>

definition cache_blind :: "(world \<Rightarrow> 'a \<times> world) \<Rightarrow> bool" where
  "cache_blind f =
     (\<forall>w c. f (w\<lparr>analysis_cache := c\<rparr>) = (fst (f w), (snd (f w))\<lparr>analysis_cache := c\<rparr>))"



text \<open>\<^verbatim>\<open>_get_client\<close> will not raise: the client exists or the API key is set.\<close>

definition client_ready :: "env \<Rightarrow> world \<Rightarrow> bool" where
  "client_ready E w =
     (client w \<or> (case GEMINI_API_KEY E of None \<Rightarrow> False | Some api_key \<Rightarrow> api_key \<noteq> []))"

text \<open>
  A chat message on which the loop of \<^verbatim>\<open>_chat\<close> raises nothing: a dict whose \<^verbatim>\<open>role\<close> and
  \<^verbatim>\<open>content\<close>, where present, are strings.
\<close>

fun str_or_missing :: "json option \<Rightarrow> bool" where
  "str_or_missing None = True"
| "str_or_missing (Some (JStr s)) = True"
| "str_or_missing (Some v) = False"

fun well_formed_message :: "json \<Rightarrow> bool" where
  "well_formed_message (JObj m) =
     (str_or_missing (map_of m ''role'') \<and> str_or_missing (map_of m ''content''))"
| "well_formed_message v = False"

text \<open>The events that are printed lines, and a state without them.\<close>

fun is_Print :: "event \<Rightarrow> bool" where
  "is_Print (Print d) = True"
| "is_Print ev = False"

definition quiet :: "world \<Rightarrow> world" where
  "quiet w = w\<lparr>trace := filter (\<lambda>ev. \<not> is_Print ev) (trace w)\<rparr>"

text \<open>
  What the loop of \<^verbatim>\<open>_chat\<close> does with one message, read off \<open>chat_message\<close>: the
  contents it appends (one or none; they depend on neither the index nor the state) and
  the lines it prints for the message at index \<open>i\<close>.
\<close>

definition message_contents :: "env \<Rightarrow> json \<Rightarrow> content list" where
  "message_contents E msg =
     (case fst (chat_message E 0 msg initial_world) of
        Inr (Some c) \<Rightarrow> [c]
      | _ \<Rightarrow> [])"

definition message_trace :: "env \<Rightarrow> nat \<Rightarrow> json \<Rightarrow> event list" where
  "message_trace E i msg = trace (snd (chat_message E i msg initial_world))"


section \<open>Properties of the cache\<close>


lemma evict_nonneg: "0 \<le> m \<Longrightarrow> evict m d = (Inr (), drop (length d - nat m) d)"
proof (induction d)
  case Nil
  then show ?case by (simp add: evict.simps)
next
  case (Cons p ps)
  show ?case
  proof (cases "int (length (p # ps)) > m")
    case True
    with Cons.prems have "Suc (length ps) - nat m = Suc (length ps - nat m)" by simp
    with True Cons show ?thesis
      by (subst evict.simps) (simp add: od_popitem_first_def)
  next
    case False
    then show ?thesis by (subst evict.simps) simp
  qed
qed

lemma map_of_contains: "od_contains k d \<Longrightarrow> \<exists>v. map_of d k = Some v"
  by (induction d) (auto simp: od_contains_def)

lemma contains_map_of: "map_of d k = Some v \<Longrightarrow> od_contains k d"
  by (auto simp: od_contains_def dest: map_of_SomeD intro: rev_image_eqI)

lemma length_filter_key:
  assumes "od_contains k d"
  shows "length (filter (\<lambda>p. fst p \<noteq> k) d) < length d"
proof -
  from assms obtain v where "(k, v) \<in> set d" by (auto simp: od_contains_def)
  then show ?thesis by (rule length_filter_less) simp
qed

lemma get_cases:
  "LRUCache_get now k c =
     (case map_of (entries c) k of
        None \<Rightarrow> (Inr None, c)
      | Some (v, ts) \<Rightarrow>
          if now - ts > real_of_int (ttl_seconds c)
          then (Inr None, c\<lparr>entries := filter (\<lambda>p. fst p \<noteq> k) (entries c)\<rparr>)
          else (Inr (Some v), c\<lparr>entries := filter (\<lambda>p. fst p \<noteq> k) (entries c) @ [(k, (v, ts))]\<rparr>))"
proof (cases "map_of (entries c) k")
  case None
  then have "\<not> od_contains k (entries c)"
    using map_of_contains by fastforce
  with None show ?thesis by (simp add: LRUCache_get_def)
next
  case (Some a)
  then have "od_contains k (entries c)" by (rule contains_map_of)
  with Some show ?thesis
    by (cases a) (simp add: LRUCache_get_def od_getitem_def od_delitem_def od_move_to_end_def)
qed

lemma filter_absent: "\<not> od_contains k d \<Longrightarrow> filter (\<lambda>p. fst p \<noteq> k) d = d"
  by (induction d) (auto simp: od_contains_def)

lemma setitem_moved:
  "od_setitem k v (filter (\<lambda>p. fst p \<noteq> k) d @ [(k, u)]) = filter (\<lambda>p. fst p \<noteq> k) d @ [(k, v)]"
proof -
  have "map (\<lambda>p. if fst p = k then (k, v) else p) (filter (\<lambda>p. fst p \<noteq> k) d)
        = filter (\<lambda>p. fst p \<noteq> k) d"
    by (induction d) auto
  then show ?thesis by (simp add: od_setitem_def od_contains_def)
qed

lemma set_cases:
  assumes "0 \<le> max_size c"
  shows "LRUCache_set now k v c =
     (Inr (), c\<lparr>entries :=
        drop (Suc (length (filter (\<lambda>p. fst p \<noteq> k) (entries c))) - nat (max_size c))
          (filter (\<lambda>p. fst p \<noteq> k) (entries c) @ [(k, (v, now))])\<rparr>)"
proof (cases "od_contains k (entries c)")
  case True
  then obtain u where "map_of (entries c) k = Some u" using map_of_contains by blast
  with True assms show ?thesis
    by (simp add: LRUCache_set_def od_move_to_end_def setitem_moved evict_nonneg)
next
  case False
  with assms show ?thesis
    by (simp add: LRUCache_set_def od_setitem_def filter_absent evict_nonneg)
qed


lemma get_max_size: "max_size (snd (LRUCache_get now k c)) = max_size c"
  by (simp add: get_cases split: option.splits prod.splits)

lemma get_length: "length (entries (snd (LRUCache_get now k c))) \<le> length (entries c)"
proof (cases "map_of (entries c) k")
  case None
  then show ?thesis by (simp add: get_cases)
next
  case (Some a)
  then have "length (filter (\<lambda>p. fst p \<noteq> k) (entries c)) < length (entries c)"
    by (intro length_filter_key contains_map_of)
  with Some show ?thesis
    by (cases a) (simp add: get_cases)
qed

lemma get_no_raise: "\<not> isl (fst (LRUCache_get now k c))"
  by (simp add: get_cases split: option.splits prod.splits)

lemma set_max_size: "0 \<le> max_size c \<Longrightarrow> max_size (snd (LRUCache_set now k v c)) = max_size c"
  by (simp add: set_cases)

lemma set_length:
  "0 \<le> max_size c \<Longrightarrow> int (length (entries (snd (LRUCache_set now k v c)))) \<le> max_size c"
  by (simp add: set_cases)

lemma set_no_raise: "0 \<le> max_size c \<Longrightarrow> \<not> isl (fst (LRUCache_set now k v c))"
  by (simp add: set_cases)

lemma apply_op_inv:
  assumes "0 \<le> cap" and "cache_inv cap c"
  shows "cache_inv cap (apply_op x c)"
proof (cases x)
  case (Get now k)
  have "int (length (entries (snd (LRUCache_get now k c)))) \<le> int (length (entries c))"
    using get_length[of now k c] by simp
  with assms Get show ?thesis by (simp add: cache_inv_def get_max_size)
next
  case (Set now k v)
  from assms have "0 \<le> max_size c" by (simp add: cache_inv_def)
  with assms Set show ?thesis
    using set_length[of c now k v] set_max_size[of c now k v] by (simp add: cache_inv_def)
qed

lemma apply_op_no_raise: "0 \<le> cap \<Longrightarrow> cache_inv cap c \<Longrightarrow> \<not> op_raises x c"
  by (cases x) (auto simp: cache_inv_def get_no_raise set_no_raise)

lemma run_ops_inv: "0 \<le> cap \<Longrightarrow> cache_inv cap c \<Longrightarrow> cache_inv cap (run_ops ops c)"
  unfolding run_ops_def
  by (induction ops arbitrary: c) (auto intro: apply_op_inv)


lemma keys_set_fresh:
  assumes "0 \<le> max_size c" and "k \<notin> set (keys c)"
  shows "keys (snd (LRUCache_set now k v c))
         = drop (Suc (length (keys c)) - nat (max_size c)) (keys c @ [k])"
proof -
  from assms(2) have "filter (\<lambda>p. fst p \<noteq> k) (entries c) = entries c"
    by (intro filter_absent) (simp add: od_contains_def keys_def)
  with assms(1) have "entries (snd (LRUCache_set now k v c))
      = drop (Suc (length (entries c)) - nat (max_size c)) (entries c @ [(k, (v, now))])"
    by (simp add: set_cases)
  moreover have "keys c @ [k] = map fst (entries c @ [(k, (v, now))])"
    by (simp add: keys_def)
  ultimately show ?thesis
    unfolding keys_def by (simp only: drop_map length_map)
qed

lemma drop_append_le: "n \<le> length xs \<Longrightarrow> drop n (xs @ ys) = drop n xs @ ys"
  by simp

lemma keys_run_sets:
  assumes "0 < cap"
  shows "cache_inv cap c \<Longrightarrow> distinct (keys c @ map (\<lambda>(now, key, v). key) items) \<Longrightarrow>
         keys (run_ops (map (\<lambda>(now, key, v). Set now key v) items) c)
         = drop (length (keys c) + length items - nat cap)
                (keys c @ map (\<lambda>(now, key, v). key) items)"
proof (induction items arbitrary: c)
  case Nil
  then have "length (keys c) \<le> nat cap" by (simp add: cache_inv_def keys_def) linarith
  then show ?case by (simp add: run_ops_def)
next
  case (Cons it items)
  obtain now k v where it: "it = (now, k, v)" by (cases it)
  let ?c1 = "snd (LRUCache_set now k v c)"
  let ?K = "keys c"
  let ?j = "Suc (length ?K) - nat cap"
  let ?rest = "map (\<lambda>(now, key, v). key) items"
  from Cons.prems(1) have ms: "max_size c = cap" by (simp add: cache_inv_def)
  from Cons.prems(1) have len: "length ?K \<le> nat cap"
    by (simp add: cache_inv_def keys_def) linarith
  from Cons.prems it have fresh: "k \<notin> set ?K" by auto
  from ms assms fresh have k1: "keys ?c1 = drop ?j (?K @ [k])"
    using keys_set_fresh[of c k now v] by simp
  have inv1: "cache_inv cap ?c1"
    using apply_op_inv[of cap c "Set now k v"] assms Cons.prems(1) by simp
  have jle: "?j \<le> length (?K @ [k])" by simp
  have app: "keys ?c1 @ ?rest = drop ?j (?K @ k # ?rest)"
    using k1 drop_append_le[OF jle, of ?rest] by (simp del: drop_append)
  have "distinct (?K @ k # ?rest)" using Cons.prems(2) it by simp
  then have d1: "distinct (keys ?c1 @ ?rest)"
    unfolding app by (rule distinct_drop)
  have "keys (run_ops (map (\<lambda>(now, key, v). Set now key v) (it # items)) c)
        = keys (run_ops (map (\<lambda>(now, key, v). Set now key v) items) ?c1)"
    by (simp add: run_ops_def it)
  also have "\<dots> = drop (length (keys ?c1) + length items - nat cap) (keys ?c1 @ ?rest)"
    by (rule Cons.IH[OF inv1 d1])
  also have "\<dots> = drop (length (keys ?c1) + length items - nat cap + ?j) (?K @ k # ?rest)"
    unfolding app by (simp only: drop_drop)
  also have "length (keys ?c1) + length items - nat cap + ?j
             = length ?K + length (it # items) - nat cap"
  proof -
    have "length (keys ?c1) = Suc (length ?K) - ?j" by (simp add: k1 del: drop_append)
    moreover have "1 \<le> nat cap" using assms by simp
    ultimately show ?thesis using len by (simp only: length_Cons) arith
  qed
  finally show ?case by (simp add: it)
qed

lemma init_inv: "0 \<le> cap \<Longrightarrow> cache_inv cap (LRUCache_init cap ttl)"
  by (simp add: cache_inv_def LRUCache_init_def)

lemma run_ops_no_raise:
  assumes "0 \<le> cap" and "cache_inv cap c" and "i < length ops"
  shows "\<not> op_raises (ops ! i) (run_ops (take i ops) c)"
  using assms apply_op_no_raise run_ops_inv by blast

text \<open>
  Claim C3. A cache of capacity \<open>cap > 0\<close> that starts empty holds at most \<open>cap\<close>
  entries after every prefix of every sequence of \<^verbatim>\<open>get\<close> and \<^verbatim>\<open>set\<close> calls, and no call
  of the sequence raises. After \<^verbatim>\<open>set\<close> calls for \<open>cap + k\<close> distinct keys it holds exactly
  \<open>cap\<close> entries: the last \<open>cap\<close> keys set, oldest first.
\<close>

theorem cache_capacity:
  assumes "0 < cap"
  shows "int (length (entries (run_ops (take n ops) (LRUCache_init cap ttl)))) \<le> cap
       \<and> (i < length ops \<longrightarrow> \<not> op_raises (ops ! i) (run_ops (take i ops) (LRUCache_init cap ttl)))
       \<and> (distinct (map (\<lambda>(now, key, v). key) items) \<and> length items = nat cap + k \<longrightarrow>
            keys (run_ops (map (\<lambda>(now, key, v). Set now key v) items) (LRUCache_init cap ttl))
              = drop k (map (\<lambda>(now, key, v). key) items)
          \<and> length (entries (run_ops (map (\<lambda>(now, key, v). Set now key v) items)
                                (LRUCache_init cap ttl))) = nat cap)"
proof (intro conjI impI)
  from assms have inv0: "cache_inv cap (LRUCache_init cap ttl)" by (simp add: init_inv)
  from assms have c0: "0 \<le> cap" by simp
  show "int (length (entries (run_ops (take n ops) (LRUCache_init cap ttl)))) \<le> cap"
    using run_ops_inv[OF c0 inv0, of "take n ops"] by (simp add: cache_inv_def)
  show "\<not> op_raises (ops ! i) (run_ops (take i ops) (LRUCache_init cap ttl))" if "i < length ops"
    using run_ops_no_raise[OF c0 inv0 that] .
  assume h: "distinct (map (\<lambda>(now, key, v). key) items) \<and> length items = nat cap + k"
  have k0: "keys (LRUCache_init cap ttl) = []" by (simp add: keys_def LRUCache_init_def)
  from h have "distinct (keys (LRUCache_init cap ttl) @ map (\<lambda>(now, key, v). key) items)"
    by (simp add: k0)
  from keys_run_sets[OF assms inv0 this] h
  show ks: "keys (run_ops (map (\<lambda>(now, key, v). Set now key v) items) (LRUCache_init cap ttl))
              = drop k (map (\<lambda>(now, key, v). key) items)"
    by (simp add: k0)
  have "length (keys (run_ops (map (\<lambda>(now, key, v). Set now key v) items) (LRUCache_init cap ttl)))
        = nat cap"
    unfolding ks using h by simp
  then show "length (entries (run_ops (map (\<lambda>(now, key, v). Set now key v) items)
                                (LRUCache_init cap ttl))) = nat cap"
    by (simp add: keys_def)
qed


theorem cache_capacity_witness:
  "0 < (2::int)
   \<and> int (length (entries (run_ops (take 2 [Set 0 ''a'' JNull, Get 1 ''a'', Set 2 ''b'' JNull])
                               (LRUCache_init 2 60)))) \<le> 2
   \<and> \<not> op_raises (Get 1 ''a'') (run_ops [Set 0 ''a'' JNull] (LRUCache_init 2 60))
   \<and> keys (run_ops [Set 0 ''a'' JNull, Set 1 ''b'' JNull, Set 2 ''c'' JNull] (LRUCache_init 2 60))
       = [''b'', ''c'']"
proof -
  have h: "0 < (2::int)" by simp
  show ?thesis
    using h
      cache_capacity[OF h, of 2 "[Set 0 ''a'' JNull, Get 1 ''a'', Set 2 ''b'' JNull]" 60 1
        "[(0, ''a'', JNull), (1, ''b'', JNull), (2, ''c'', JNull)]" 1]
    by simp
qed

lemma set_then_present:
  assumes "0 < max_size c"
  shows "map_of (entries (snd (LRUCache_set t k v c))) k = Some (v, t)"
proof -
  let ?F = "filter (\<lambda>p. fst p \<noteq> k) (entries c)"
  let ?j = "Suc (length ?F) - nat (max_size c)"
  from assms have j: "?j \<le> length ?F" by simp
  have "k \<notin> fst ` set (drop ?j ?F)"
    using set_drop_subset[of ?j ?F] by auto
  then have "map_of (drop ?j ?F) k = None" by (simp add: map_of_eq_None_iff)
  moreover from assms have "entries (snd (LRUCache_set t k v c)) = drop ?j ?F @ [(k, (v, t))]"
    using j by (simp add: set_cases)
  ultimately show ?thesis by (simp add: map_add_def)
qed

text \<open>
  Claim C4. A \<^verbatim>\<open>set\<close> of key \<open>k\<close> at time \<open>insertedAt\<close> in a cache of capacity above 0
  leaves the entry \<open>(v, insertedAt)\<close> under \<open>k\<close>. While the cache holds that entry, a
  \<^verbatim>\<open>get\<close> at a time after \<open>insertedAt + ttl_seconds\<close> returns \<^verbatim>\<open>None\<close> and removes the
  entry, so that the next \<^verbatim>\<open>get\<close>, at any time, returns \<^verbatim>\<open>None\<close> too; a \<^verbatim>\<open>get\<close> at or
  before that time returns \<open>v\<close> and moves the entry to the end, the most recently used
  place, the other entries keeping their order.
\<close>

theorem cache_ttl:
  "(0 < max_size c0 \<longrightarrow>
      map_of (entries (snd (LRUCache_set insertedAt k v c0))) k = Some (v, insertedAt))
   \<and> (map_of (entries c) k = Some (v, insertedAt) \<longrightarrow>
        (now > insertedAt + real_of_int (ttl_seconds c) \<longrightarrow>
            LRUCache_get now k c = (Inr None, c\<lparr>entries := filter (\<lambda>p. fst p \<noteq> k) (entries c)\<rparr>)
          \<and> k \<notin> set (keys (snd (LRUCache_get now k c)))
          \<and> LRUCache_get now' k (snd (LRUCache_get now k c))
              = (Inr None, snd (LRUCache_get now k c)))
      \<and> (now \<le> insertedAt + real_of_int (ttl_seconds c) \<longrightarrow>
            LRUCache_get now k c
              = (Inr (Some v),
                 c\<lparr>entries := filter (\<lambda>p. fst p \<noteq> k) (entries c) @ [(k, (v, insertedAt))]\<rparr>)))"
proof (intro conjI impI)
  assume "0 < max_size c0"
  then show "map_of (entries (snd (LRUCache_set insertedAt k v c0))) k = Some (v, insertedAt)"
    by (rule set_then_present)
next
  assume e: "map_of (entries c) k = Some (v, insertedAt)"
    and late: "now > insertedAt + real_of_int (ttl_seconds c)"
  then show g: "LRUCache_get now k c
      = (Inr None, c\<lparr>entries := filter (\<lambda>p. fst p \<noteq> k) (entries c)\<rparr>)"
    by (simp add: get_cases)
  show "k \<notin> set (keys (snd (LRUCache_get now k c)))"
    by (auto simp: g keys_def)
  then have "map_of (entries (snd (LRUCache_get now k c))) k = None"
    by (simp add: keys_def map_of_eq_None_iff)
  then show "LRUCache_get now' k (snd (LRUCache_get now k c))
              = (Inr None, snd (LRUCache_get now k c))"
    by (simp add: get_cases)
next
  assume "map_of (entries c) k = Some (v, insertedAt)"
    and "now \<le> insertedAt + real_of_int (ttl_seconds c)"
  then show "LRUCache_get now k c
      = (Inr (Some v),
         c\<lparr>entries := filter (\<lambda>p. fst p \<noteq> k) (entries c) @ [(k, (v, insertedAt))]\<rparr>)"
    by (simp add: get_cases)
qed

text \<open>
  Claim C6. Capacity 2, empty at the start, four different keys. After \<^verbatim>\<open>set\<close> of A, B
  and C the cache holds B and C (A left when C came), \<^verbatim>\<open>get(A)\<close> finds nothing and
  changes nothing, and \<^verbatim>\<open>set(D)\<close> leaves C and D: B is gone, and A is not among the keys
  that the insertion of D removed.
\<close>

theorem cache_promotion:
  assumes "distinct [A, B, C, D]"
  shows "keys (run_ops [Set t1 A v1, Set t2 B v2, Set t3 C v3] (LRUCache_init 2 ttl)) = [B, C]
       \<and> LRUCache_get t4 A (run_ops [Set t1 A v1, Set t2 B v2, Set t3 C v3] (LRUCache_init 2 ttl))
           = (Inr None, run_ops [Set t1 A v1, Set t2 B v2, Set t3 C v3] (LRUCache_init 2 ttl))
       \<and> keys (run_ops [Set t1 A v1, Set t2 B v2, Set t3 C v3, Get t4 A, Set t5 D v5]
                 (LRUCache_init 2 ttl)) = [C, D]
       \<and> B \<notin> set (keys (run_ops [Set t1 A v1, Set t2 B v2, Set t3 C v3, Get t4 A, Set t5 D v5]
                 (LRUCache_init 2 ttl)))
       \<and> A \<notin> set (filter
              (\<lambda>k. k \<notin> set (keys (run_ops [Set t1 A v1, Set t2 B v2, Set t3 C v3, Get t4 A, Set t5 D v5]
                 (LRUCache_init 2 ttl))))
              (keys (run_ops [Set t1 A v1, Set t2 B v2, Set t3 C v3, Get t4 A]
                 (LRUCache_init 2 ttl))))"
  using assms
  by (simp add: run_ops_def LRUCache_init_def set_cases get_cases keys_def)

theorem cache_ttl_witness:
  "0 < max_size (LRUCache_init 2 60)
   \<and> map_of (entries (snd (LRUCache_set 100 ''k'' (JObj [(''status'', JStr ''healthy'')])
                           (LRUCache_init 2 60)))) ''k''
     = Some (JObj [(''status'', JStr ''healthy'')], 100)
   \<and> fst (LRUCache_get 161 ''k'' (snd (LRUCache_set 100 ''k'' (JObj [(''status'', JStr ''healthy'')])
                                        (LRUCache_init 2 60)))) = Inr None
   \<and> fst (LRUCache_get 160 ''k'' (snd (LRUCache_set 100 ''k'' (JObj [(''status'', JStr ''healthy'')])
                                        (LRUCache_init 2 60))))
       = Inr (Some (JObj [(''status'', JStr ''healthy'')]))"
proof -
  let ?c = "snd (LRUCache_set 100 ''k'' (JObj [(''status'', JStr ''healthy'')])
                   (LRUCache_init 2 60))"
  have m: "0 < max_size (LRUCache_init 2 60)" by (simp add: LRUCache_init_def)
  have ttl: "ttl_seconds ?c = 60"
    by (simp add: set_cases LRUCache_init_def)
  show ?thesis
    using m
      cache_ttl[where ?c0.0 = "LRUCache_init 2 60" and insertedAt = 100 and k = "''k''"
        and v = "JObj [(''status'', JStr ''healthy'')]" and c = ?c and now = 161 and now' = 0]
      cache_ttl[where ?c0.0 = "LRUCache_init 2 60" and insertedAt = 100 and k = "''k''"
        and v = "JObj [(''status'', JStr ''healthy'')]" and c = ?c and now = 160 and now' = 0]
    by (simp add: ttl)
qed

theorem cache_promotion_witness:
  "distinct [''A'', ''B'', ''C'', ''D'']
   \<and> keys (run_ops [Set 1 ''A'' JNull, Set 2 ''B'' JNull, Set 3 ''C'' JNull, Get 4 ''A'',
                     Set 5 ''D'' JNull] (LRUCache_init 2 3600)) = [''C'', ''D'']
   \<and> ''B'' \<notin> set (keys (run_ops [Set 1 ''A'' JNull, Set 2 ''B'' JNull, Set 3 ''C'' JNull,
                     Get 4 ''A'', Set 5 ''D'' JNull] (LRUCache_init 2 3600)))"
proof -
  have h: "distinct [''A'', ''B'', ''C'', ''D'']" by simp
  show ?thesis
    using h cache_promotion[OF h, of 1 JNull 2 JNull 3 JNull 3600 4 5 JNull]
    by simp
qed

section \<open>Properties of the retry loop\<close>

lemma attempt_world_shift:
  "attempt_world func (d * 2) (sleep d (snd (func (emit Invoke w)))) i
   = attempt_world func d w (Suc i)"
  by (induction i) (simp_all add: mult.assoc)

lemma retry_loop_char:
  "a + int k \<le> n \<Longrightarrow>
   \<forall>i<k. isl (fst (func (attempt_world func d w i))) \<Longrightarrow>
   a + int k = n \<or> \<not> isl (fst (func (attempt_world func d w k))) \<Longrightarrow>
   retry_loop func n a d w = func (attempt_world func d w k)"
proof (induction k arbitrary: a d w)
  case 0
  obtain r w' where f: "func (emit Invoke w) = (r, w')" by (cases "func (emit Invoke w)")
  from 0 f show ?case
    by (subst retry_loop.simps) (cases r; auto)
next
  case (Suc k)
  obtain r w' where f: "func (emit Invoke w) = (r, w')" by (cases "func (emit Invoke w)")
  from Suc.prems(2) f obtain e where r: "r = Inl e" by (cases r) force+
  have step: "retry_loop func n a d w = retry_loop func n (a + 1) (d * 2) (sleep d w')"
    using Suc.prems(1) f r by (subst retry_loop.simps) simp
  have w': "w' = snd (func (emit Invoke w))" using f by simp
  have "retry_loop func n (a + 1) (d * 2) (sleep d w')
        = func (attempt_world func (d * 2) (sleep d w') k)"
  proof (rule Suc.IH)
    show "a + 1 + int k \<le> n" using Suc.prems(1) by simp
    show "\<forall>i<k. isl (fst (func (attempt_world func (d * 2) (sleep d w') i)))"
      unfolding w' attempt_world_shift using Suc.prems(2) by auto
    show "a + 1 + int k = n \<or> \<not> isl (fst (func (attempt_world func (d * 2) (sleep d w') k)))"
      unfolding w' attempt_world_shift using Suc.prems(3) by auto
  qed
  then show ?case unfolding step w' attempt_world_shift .
qed






lemma retry_constant_failure:
  assumes "\<And>s. func s = (Inl e, s)"
  shows "call_with_retry func 2 w
         = (Inl e, w\<lparr>clock := clock w + 8 / 10 + 16 / 10,
                     trace := trace w @ [Invoke, Sleep (8 / 10), Invoke, Sleep (16 / 10), Invoke]\<rparr>)"
proof -
  have "call_with_retry func 2 w = func (attempt_world func (8 / 10) w (nat 2))"
    unfolding call_with_retry_def by (intro retry_loop_char) (auto simp: assms)
  then show ?thesis
    by (simp add: assms eval_nat_numeral emit_def sleep_def)
qed


section \<open>Validation failures\<close>

lemma analyze_invalid:
  assumes "\<not> truthy (dict_get payload ''image_base64'') \<and> m = ''image_base64 is required''
         \<or> truthy (dict_get payload ''image_base64'')
           \<and> b64decode E (dict_get payload ''image_base64'') = Inl (ValueError m)
         \<or> truthy (dict_get payload ''image_base64'')
           \<and> b64decode E (dict_get payload ''image_base64'') = Inr image_bytes
           \<and> MAX_IMAGE_BYTES E = Limit max_bytes \<and> int (length image_bytes) > max_bytes
           \<and> m = ''image exceeds max size''"
  shows "analyze E payload s = (Inl (ValueError m), s)"
  using assms by (auto simp: analyze_def)

lemma chat_invalid:
  assumes "\<forall>ms. dict_get payload ''messages'' \<noteq> JArr ms"
  shows "chat E payload s = (Inl (ValueError ''messages must be a list''), s)"
  using assms by (cases "dict_get payload ''messages''") (auto simp: chat_def)

text \<open>
  Claim C1, as amended. A request to \<^verbatim>\<open>/analyze\<close> whose \<^verbatim>\<open>image_base64\<close> is missing or empty,
  does not decode (a \<^verbatim>\<open>ValueError\<close> of base64) or decodes to more than the configured
  number of bytes, and a request to \<^verbatim>\<open>/chat\<close> whose \<^verbatim>\<open>messages\<close> is not a list, is answered
  with status 400, code \<^verbatim>\<open>bad_request\<close> and the message of the error, and no remote call is
  made. The check runs inside the retry loop, which retries every exception: the
  operation is called three times, with sleeps of 0.8 and 1.6 seconds between the calls,
  before the error reaches the caller.
\<close>

theorem validation_failure_retried:
  assumes "req_method r = ''POST''" and "req_json r = Some (JObj payload)"
    and "req_path r = ''/analyze''
         \<and> (\<not> truthy (dict_get payload ''image_base64'') \<and> m = ''image_base64 is required''
            \<or> truthy (dict_get payload ''image_base64'')
              \<and> b64decode E (dict_get payload ''image_base64'') = Inl (ValueError m)
            \<or> truthy (dict_get payload ''image_base64'')
              \<and> b64decode E (dict_get payload ''image_base64'') = Inr image_bytes
              \<and> MAX_IMAGE_BYTES E = Limit max_bytes \<and> int (length image_bytes) > max_bytes
              \<and> m = ''image exceeds max size'')
       \<or> req_path r = ''/chat''
         \<and> (\<forall>ms. dict_get payload ''messages'' \<noteq> JArr ms) \<and> m = ''messages must be a list''"
  shows "handle E r w
         = (error_response ''bad_request'' m 400,
            w\<lparr>clock := clock w + 8 / 10 + 16 / 10,
              trace := trace w @ [Invoke, Sleep (8 / 10), Invoke, Sleep (16 / 10), Invoke]\<rparr>)"
proof -
  from assms(3) consider
    (a) "req_path r = ''/analyze''" "\<And>s. analyze E payload s = (Inl (ValueError m), s)"
  | (c) "req_path r = ''/chat''" "\<And>s. chat E payload s = (Inl (ValueError m), s)"
    using analyze_invalid[of payload m E image_bytes max_bytes] chat_invalid[of payload E]
    by blast
  then show ?thesis
  proof cases
    case a
    show ?thesis
      using assms(1,2) a(1) retry_constant_failure[of "analyze E payload", OF a(2), of w]
      by (simp add: handle_def dispatch_def)
  next
    case c
    show ?thesis
      using assms(1,2) c(1) retry_constant_failure[of "chat E payload", OF c(2), of w]
      by (simp add: handle_def dispatch_def)
  qed
qed

theorem validation_failure_retried_witness:
  "handle (example_env (text_answer ''{}'')) (analyze_request [(''image_base64'', JStr ''AQI'')])
     initial_world
   = (error_response ''bad_request'' ''Incorrect padding'' 400,
      initial_world\<lparr>clock := 24 / 10,
                     trace := [Invoke, Sleep (8 / 10), Invoke, Sleep (16 / 10), Invoke]\<rparr>)"
  using validation_failure_retried[where E = "example_env (text_answer ''{}'')"
      and r = "analyze_request [(''image_base64'', JStr ''AQI'')]"
      and payload = "[(''image_base64'', JStr ''AQI'')]" and m = "''Incorrect padding''"
      and w = initial_world]
  by (simp add: analyze_request_def example_env_def dict_get_def initial_world_def)

text \<open>
  Claim C1 as stated fails on an analyze request with an empty payload: the operation is
  called again after the validation error, twice, and the process sleeps in between.
\<close>

theorem validation_short_circuit_counterexample:
  "trace (snd (handle (example_env (text_answer ''{}'')) (analyze_request []) initial_world))
   = [Invoke, Sleep (8 / 10), Invoke, Sleep (16 / 10), Invoke]"
proof -
  have "\<And>s. analyze (example_env (text_answer ''{}'')) [] s
             = (Inl (ValueError ''image_base64 is required''), s)"
    by (simp add: analyze_def dict_get_def)
  from retry_constant_failure[of "analyze (example_env (text_answer ''{}'')) []", OF this,
        of initial_world]
  show ?thesis
    by (simp add: handle_def dispatch_def analyze_request_def initial_world_def)
qed

section \<open>Cache hits of the analyze operation\<close>

lemma retry_first_success:
  assumes "0 \<le> n" and "func (emit Invoke w) = (Inr v, w')"
  shows "call_with_retry func n w = (Inr v, w')"
proof -
  have "call_with_retry func n w = func (attempt_world func (8 / 10) w 0)"
    unfolding call_with_retry_def using assms by (intro retry_loop_char) auto
  with assms(2) show ?thesis by simp
qed

lemma map_of_moved: "map_of (filter (\<lambda>p. fst p \<noteq> k) d @ [(k, x)]) k = Some x"
proof -
  have "map_of (filter (\<lambda>p. fst p \<noteq> k) d) k = None"
    by (auto simp: map_of_eq_None_iff)
  then show ?thesis by (simp add: map_add_def)
qed

lemma analyze_hit:
  assumes "truthy (dict_get payload ''image_base64'')"
    and "b64decode E (dict_get payload ''image_base64'') = Inr image_bytes"
    and "MAX_IMAGE_BYTES E = NoLimit
         \<or> (\<exists>max_bytes. MAX_IMAGE_BYTES E = Limit max_bytes \<and> int (length image_bytes) \<le> max_bytes)"
    and "map_of (entries (analysis_cache w)) (sha256_hexdigest E image_bytes) = Some (v, ts)"
    and "clock w - ts \<le> real_of_int (ttl_seconds (analysis_cache w))"
    and "truthy v"
  shows "analyze E payload w
         = (Inr v, w\<lparr>analysis_cache := (analysis_cache w)\<lparr>entries :=
               filter (\<lambda>p. fst p \<noteq> sha256_hexdigest E image_bytes) (entries (analysis_cache w))
               @ [(sha256_hexdigest E image_bytes, (v, ts))]\<rparr>\<rparr>)"
  using assms by (auto simp: analyze_def get_cases Let_def)


lemma set_max_size_any: "max_size (snd (LRUCache_set now k v c)) = max_size c"
  by (simp add: LRUCache_set_def split: sum.splits prod.splits)

lemma get_client_cache: "analysis_cache (snd (get_client E w)) = analysis_cache w"
  by (simp add: get_client_def split: option.splits)

lemma generate_cache: "analysis_cache (snd (generate_content E cs w)) = analysis_cache w"
  by (simp add: generate_content_def emit_def)

lemma analyze_remote_success:
  assumes "analyze_remote E payload bs h w = (Inr data, w')" and "0 < max_size (analysis_cache w)"
  shows "\<exists>ts. map_of (entries (analysis_cache w')) h = Some (data, ts)"
proof -
  obtain r1 w1 where g: "get_client E w = (r1, w1)" by (cases "get_client E w")
  obtain r2 w2 where gen:
    "generate_content E [\<lparr>role = ''user'', parts = [Part_from_bytes bs (detect_mime_type bs),
        Part_from_text (build_analyze_prompt E payload)]\<rparr>] w1 = (r2, w2)"
    by (cases "generate_content E [\<lparr>role = ''user'', parts = [Part_from_bytes bs (detect_mime_type bs),
        Part_from_text (build_analyze_prompt E payload)]\<rparr>] w1")
  have c1: "analysis_cache w1 = analysis_cache w" using get_client_cache[of E w] g by simp
  have c2: "analysis_cache w2 = analysis_cache w1"
    by (metis gen generate_cache snd_conv)
  from assms(1) g gen
  have "w' = w2\<lparr>analysis_cache := snd (LRUCache_set (clock w2) h data (analysis_cache w2))\<rparr>"
    by (auto simp: analyze_remote_def Let_def split: sum.splits prod.splits)
  moreover have "map_of (entries (snd (LRUCache_set (clock w2) h data (analysis_cache w2)))) h
                 = Some (data, clock w2)"
    by (rule set_then_present) (simp add: c1 c2 assms(2))
  ultimately show ?thesis by simp
qed

lemma analyze_success_cached:
  assumes "analyze E payload w = (Inr data, w')" and "0 < max_size (analysis_cache w)"
    and "b64decode E (dict_get payload ''image_base64'') = Inr bs"
  shows "\<exists>ts. map_of (entries (analysis_cache w')) (sha256_hexdigest E bs) = Some (data, ts)"
proof -
  let ?h = "sha256_hexdigest E bs"
  let ?c = "snd (LRUCache_get (clock w) ?h (analysis_cache w))"
  have ms: "0 < max_size (analysis_cache (w\<lparr>analysis_cache := ?c\<rparr>))"
    using assms(2) by (simp add: get_max_size)
  show ?thesis
  proof (cases "\<exists>v ts. map_of (entries (analysis_cache w)) ?h = Some (v, ts)
                  \<and> \<not> clock w - ts > real_of_int (ttl_seconds (analysis_cache w)) \<and> truthy v")
    case True
    then obtain v ts where e: "map_of (entries (analysis_cache w)) ?h = Some (v, ts)"
      "\<not> clock w - ts > real_of_int (ttl_seconds (analysis_cache w))" "truthy v" by blast
    with assms(1,3) have "data = v" and
      "analysis_cache w' = (analysis_cache w)\<lparr>entries :=
           filter (\<lambda>p. fst p \<noteq> ?h) (entries (analysis_cache w)) @ [(?h, (v, ts))]\<rparr>"
      by (auto simp: analyze_def get_cases Let_def split: if_splits sum.splits limit.splits)
    then show ?thesis
      using map_of_moved[of ?h "entries (analysis_cache w)" "(v, ts)"]
      by (simp del: map_of_append)
  next
    case False
    with assms(1,3) have "analyze_remote E payload bs ?h (w\<lparr>analysis_cache := ?c\<rparr>) = (Inr data, w')"
      by (auto simp: analyze_def get_cases Let_def
               split: if_splits sum.splits limit.splits option.splits prod.splits)
    from analyze_remote_success[OF this ms] show ?thesis .
  qed
qed

lemma set_max_size_pair: "LRUCache_set now k v c = (r, c') \<Longrightarrow> max_size c' = max_size c"
  by (metis set_max_size_any snd_conv)

lemma analyze_remote_max_size:
  "max_size (analysis_cache (snd (analyze_remote E payload bs h w))) = max_size (analysis_cache w)"
proof -
  obtain r1 w1 where g: "get_client E w = (r1, w1)" by (cases "get_client E w")
  obtain r2 w2 where gen:
    "generate_content E [\<lparr>role = ''user'', parts = [Part_from_bytes bs (detect_mime_type bs),
        Part_from_text (build_analyze_prompt E payload)]\<rparr>] w1 = (r2, w2)"
    by (cases "generate_content E [\<lparr>role = ''user'', parts = [Part_from_bytes bs (detect_mime_type bs),
        Part_from_text (build_analyze_prompt E payload)]\<rparr>] w1")
  have c1: "analysis_cache w1 = analysis_cache w" using get_client_cache[of E w] g by simp
  have c2: "analysis_cache w2 = analysis_cache w1"
    by (metis gen generate_cache snd_conv)
  show ?thesis
    using g gen c1 c2
    by (auto simp: analyze_remote_def Let_def split: sum.splits prod.splits
             dest: set_max_size_pair)
qed

lemma analyze_max_size:
  "max_size (analysis_cache (snd (analyze E payload w))) = max_size (analysis_cache w)"
proof -
  have "max_size (snd (LRUCache_get (clock w) h (analysis_cache w))) = max_size (analysis_cache w)"
    for h by (rule get_max_size)
  then have "LRUCache_get (clock w) h (analysis_cache w) = (r, c)
             \<Longrightarrow> max_size c = max_size (analysis_cache w)" for h r c
    by (metis snd_conv)
  then show ?thesis
    by (auto simp: analyze_def Let_def analyze_remote_max_size
             split: sum.splits limit.splits option.splits prod.splits)
qed

lemma retry_loop_success_inv:
  "\<forall>s. P s \<longrightarrow> P (snd (func s)) \<Longrightarrow> \<forall>d s. P s \<longrightarrow> P (sleep d s) \<Longrightarrow>
   \<forall>s. P s \<longrightarrow> P (emit Invoke s) \<Longrightarrow> P w \<Longrightarrow>
   retry_loop func n a d w = (Inr v, w') \<Longrightarrow> \<exists>s. P s \<and> func s = (Inr v, w')"
proof (induction func n a d w rule: retry_loop.induct)
  case (1 func max_retries attempt delay w)
  note step = "1.prems"(1) and slp = "1.prems"(2) and inv = "1.prems"(3)
  show ?case
  proof (cases "attempt < max_retries + 1")
    case False
    with "1.prems"(5) show ?thesis by (subst (asm) retry_loop.simps) simp
  next
    case True
    obtain r s' where f: "func (emit Invoke w) = (r, s')" by (cases "func (emit Invoke w)")
    have Pi: "P (emit Invoke w)" using "1.prems"(4) inv by blast
    show ?thesis
    proof (cases r)
      case (Inr x)
      with "1.prems"(5) True f Pi show ?thesis
        by (subst (asm) retry_loop.simps) auto
    next
      case (Inl e)
      show ?thesis
      proof (cases "attempt = max_retries")
        case True
        with "1.prems"(5) Inl f show ?thesis
          by (subst (asm) retry_loop.simps) auto
      next
        case False
        have "P s'" using step Pi f by (metis snd_conv)
        then have Ps: "P (sleep delay s')" using slp by blast
        from "1.prems"(5) Inl f True False
        have "retry_loop func max_retries (attempt + 1) (delay * 2) (sleep delay s') = (Inr v, w')"
          by (subst (asm) retry_loop.simps) auto
        from "1.IH"[OF True f[symmetric] Inl False step slp inv Ps this] show ?thesis .
      qed
    qed
  qed
qed


lemma handle_analyze_ok:
  assumes "req_method r = ''POST''" and "req_path r = ''/analyze''"
    and "req_json r = Some (JObj payload)"
    and "handle E r w = (resp, w')" and "status resp = 200"
  shows "call_with_retry (analyze E payload) 2 w = (Inr (body resp), w')"
proof -
  obtain x s where c: "call_with_retry (analyze E payload) 2 w = (x, s)"
    by (cases "call_with_retry (analyze E payload) 2 w")
  show ?thesis
  proof (cases x)
    case (Inr data)
    with assms c show ?thesis
      by (auto simp: handle_def dispatch_def json_response_def)
  next
    case (Inl e)
    with assms c show ?thesis
      by (cases e) (auto simp: handle_def dispatch_def json_response_def error_response_def)
  qed
qed

text \<open>
  Claim C2, as amended. Take an analyze request that passes the checks, with image bytes
  of fingerprint \<open>h\<close>. When the cache holds for \<open>h\<close> an unexpired, non-empty JSON object,
  the handler answers 200 with that object; the lookup runs in the first attempt of the
  retry loop, which is the only attempt, and there is no remote call and no sleep; the
  entry moves to the most recently used place. So a request answered with 200 and a
  non-empty object, with a cache of capacity above 0, gives the same answer when it is
  sent again while the entry is unexpired, and the second handling makes no remote call.
\<close>

theorem analyze_cache_hit:
  assumes "req_method r = ''POST''" and "req_path r = ''/analyze''"
    and "req_json r = Some (JObj payload)"
    and "truthy (dict_get payload ''image_base64'')"
    and "b64decode E (dict_get payload ''image_base64'') = Inr image_bytes"
    and "MAX_IMAGE_BYTES E = NoLimit
         \<or> (\<exists>max_bytes. MAX_IMAGE_BYTES E = Limit max_bytes \<and> int (length image_bytes) \<le> max_bytes)"
  shows "(map_of (entries (analysis_cache w)) (sha256_hexdigest E image_bytes) = Some (v, ts)
          \<and> clock w - ts \<le> real_of_int (ttl_seconds (analysis_cache w)) \<and> truthy v \<longrightarrow>
            handle E r w
              = (json_response v 200,
                 w\<lparr>analysis_cache := (analysis_cache w)\<lparr>entries :=
                      filter (\<lambda>p. fst p \<noteq> sha256_hexdigest E image_bytes) (entries (analysis_cache w))
                      @ [(sha256_hexdigest E image_bytes, (v, ts))]\<rparr>,
                   trace := trace w @ [Invoke]\<rparr>))
       \<and> (handle E r w = (resp, w1) \<and> status resp = 200 \<and> truthy (body resp)
          \<and> 0 < max_size (analysis_cache w)
          \<and> (\<forall>ts'. map_of (entries (analysis_cache w1)) (sha256_hexdigest E image_bytes)
                      = Some (body resp, ts')
                    \<longrightarrow> t - ts' \<le> real_of_int (ttl_seconds (analysis_cache w1))) \<longrightarrow>
            (\<exists>c. handle E r (w1\<lparr>clock := t\<rparr>)
                  = (json_response (body resp) 200,
                     w1\<lparr>clock := t, analysis_cache := c, trace := trace w1 @ [Invoke]\<rparr>)))"
proof -
  let ?h = "sha256_hexdigest E image_bytes"
  have hit: "handle E r s
              = (json_response x 200,
                 s\<lparr>analysis_cache := (analysis_cache s)\<lparr>entries :=
                      filter (\<lambda>p. fst p \<noteq> ?h) (entries (analysis_cache s)) @ [(?h, (x, u))]\<rparr>,
                   trace := trace s @ [Invoke]\<rparr>)"
    if e: "map_of (entries (analysis_cache s)) ?h = Some (x, u)"
      and f: "clock s - u \<le> real_of_int (ttl_seconds (analysis_cache s))" and tr: "truthy x"
    for s x u
  proof -
    have "analyze E payload (emit Invoke s)
          = (Inr x, (emit Invoke s)\<lparr>analysis_cache := (analysis_cache (emit Invoke s))\<lparr>entries :=
               filter (\<lambda>p. fst p \<noteq> ?h) (entries (analysis_cache (emit Invoke s)))
               @ [(?h, (x, u))]\<rparr>\<rparr>)"
      using assms(4-6) e f tr by (intro analyze_hit) (simp_all add: emit_def)
    then have "call_with_retry (analyze E payload) 2 s
          = (Inr x, (emit Invoke s)\<lparr>analysis_cache := (analysis_cache (emit Invoke s))\<lparr>entries :=
               filter (\<lambda>p. fst p \<noteq> ?h) (entries (analysis_cache (emit Invoke s)))
               @ [(?h, (x, u))]\<rparr>\<rparr>)"
      by (intro retry_first_success) simp_all
    with assms(1-3) show ?thesis
      by (simp add: handle_def dispatch_def emit_def)
  qed
  show ?thesis
  proof (intro conjI impI)
    assume "map_of (entries (analysis_cache w)) ?h = Some (v, ts)
          \<and> clock w - ts \<le> real_of_int (ttl_seconds (analysis_cache w)) \<and> truthy v"
    then show "handle E r w
              = (json_response v 200,
                 w\<lparr>analysis_cache := (analysis_cache w)\<lparr>entries :=
                      filter (\<lambda>p. fst p \<noteq> ?h) (entries (analysis_cache w)) @ [(?h, (v, ts))]\<rparr>,
                   trace := trace w @ [Invoke]\<rparr>)"
      using hit by blast
  next
    assume a: "handle E r w = (resp, w1) \<and> status resp = 200 \<and> truthy (body resp)
          \<and> 0 < max_size (analysis_cache w)
          \<and> (\<forall>ts'. map_of (entries (analysis_cache w1)) ?h = Some (body resp, ts')
                    \<longrightarrow> t - ts' \<le> real_of_int (ttl_seconds (analysis_cache w1)))"
    then have "call_with_retry (analyze E payload) 2 w = (Inr (body resp), w1)"
      using handle_analyze_ok[OF assms(1-3)] by blast
    then have rl: "retry_loop (analyze E payload) 2 0 (8 / 10) w = (Inr (body resp), w1)"
      by (simp add: call_with_retry_def)
    have "\<exists>s. max_size (analysis_cache s) = max_size (analysis_cache w)
              \<and> analyze E payload s = (Inr (body resp), w1)"
      by (rule retry_loop_success_inv[OF _ _ _ _ rl])
         (simp_all add: analyze_max_size sleep_def emit_def)
    then obtain s where s: "max_size (analysis_cache s) = max_size (analysis_cache w)"
      "analyze E payload s = (Inr (body resp), w1)" by blast
    from a s(1) have "0 < max_size (analysis_cache s)" by simp
    from analyze_success_cached[OF s(2) this assms(5)] obtain u
      where u: "map_of (entries (analysis_cache w1)) ?h = Some (body resp, u)" by blast
    with a have fresh: "t - u \<le> real_of_int (ttl_seconds (analysis_cache w1))" by blast
    from a have tr: "truthy (body resp)" by blast
    have "handle E r (w1\<lparr>clock := t\<rparr>)
          = (json_response (body resp) 200,
             (w1\<lparr>clock := t\<rparr>)\<lparr>analysis_cache := (analysis_cache (w1\<lparr>clock := t\<rparr>))\<lparr>entries :=
                  filter (\<lambda>p. fst p \<noteq> ?h) (entries (analysis_cache (w1\<lparr>clock := t\<rparr>)))
                  @ [(?h, (body resp, u))]\<rparr>,
               trace := trace (w1\<lparr>clock := t\<rparr>) @ [Invoke]\<rparr>)"
      using u fresh tr by (intro hit) simp_all
    then show "\<exists>c. handle E r (w1\<lparr>clock := t\<rparr>)
                  = (json_response (body resp) 200,
                     w1\<lparr>clock := t, analysis_cache := c, trace := trace w1 @ [Invoke]\<rparr>)"
      by (intro exI[of _ "(analysis_cache w1)\<lparr>entries :=
                  filter (\<lambda>p. fst p \<noteq> ?h) (entries (analysis_cache w1))
                  @ [(?h, (body resp, u))]\<rparr>"]) simp
  qed
qed

lemmas example_simps =
  analyze_def analyze_remote_def example_env_def text_answer_def dict_get_def get_cases
  set_cases get_client_def generate_content_def extract_text_def extract_json_def
  str_find_def str_rfind_def slice_def healthy_text_def emit_def initial_world_def
  LRUCache_init_def detect_mime_type_def Let_def image_request_def image_hash'_def
  image_call_def cached_world_def analyze_request_def

lemma example_first_call:
  assumes "t = healthy_text \<and> v = JObj [(''status'', JStr ''healthy'')] \<or> t = ''{}'' \<and> v = JObj []"
  shows "handle (example_env (text_answer t)) image_request initial_world
         = (json_response v 200, cached_world v)"
proof -
  have "analyze (example_env (text_answer t)) [(''image_base64'', JStr ''AQID'')]
          (emit Invoke initial_world) = (Inr v, cached_world v)"
    using assms by (auto simp: example_simps)
  then have "call_with_retry
               (analyze (example_env (text_answer t)) [(''image_base64'', JStr ''AQID'')])
               2 initial_world = (Inr v, cached_world v)"
    by (intro retry_first_success) simp_all
  then show ?thesis
    by (simp add: handle_def dispatch_def analyze_request_def image_request_def)
qed

lemma example_empty_second_call:
  "handle (example_env (text_answer ''{}'')) image_request (cached_world (JObj []))
   = (json_response (JObj []) 200,
      (cached_world (JObj []))\<lparr>trace := [Invoke, image_call, Invoke, image_call]\<rparr>)"
proof -
  have "analyze (example_env (text_answer ''{}'')) [(''image_base64'', JStr ''AQID'')]
          (emit Invoke (cached_world (JObj [])))
        = (Inr (JObj []), (cached_world (JObj []))\<lparr>trace := [Invoke, image_call, Invoke, image_call]\<rparr>)"
    by (simp add: example_simps)
  then have "call_with_retry
               (analyze (example_env (text_answer ''{}'')) [(''image_base64'', JStr ''AQID'')])
               2 (cached_world (JObj []))
        = (Inr (JObj []), (cached_world (JObj []))\<lparr>trace := [Invoke, image_call, Invoke, image_call]\<rparr>)"
    by (intro retry_first_success) simp_all
  then show ?thesis
    by (simp add: handle_def dispatch_def analyze_request_def image_request_def)
qed

text \<open>
  Claim C2 as stated fails when the cached object is empty. The remote model answers the
  first request with \<^verbatim>\<open>{}\<close>, which is stored under the fingerprint of the image and is
  unexpired; the second handling of the same request finds it, takes it for a miss
  (\<^verbatim>\<open>if cached:\<close> is false for an empty dict) and calls the remote model again. Each
  handling also enters the retry loop before the lookup (the \<open>Invoke\<close> events).
\<close>

theorem analyze_cache_hit_counterexample:
  "handle (example_env (text_answer ''{}'')) image_request initial_world
     = (json_response (JObj []) 200, cached_world (JObj []))
   \<and> LRUCache_get (clock (cached_world (JObj []))) image_hash'
        (analysis_cache (cached_world (JObj [])))
     = (Inr (Some (JObj [])), analysis_cache (cached_world (JObj [])))
   \<and> trace (snd (handle (example_env (text_answer ''{}'')) image_request (cached_world (JObj []))))
     = [Invoke, image_call, Invoke, image_call]"
  using example_first_call[of "''{}''" "JObj []"]
  by (simp add: example_empty_second_call) (simp add: cached_world_def get_cases)

theorem analyze_cache_hit_witness:
  "handle (example_env (text_answer healthy_text)) image_request
     (cached_world (JObj [(''status'', JStr ''healthy'')]))
     = (json_response (JObj [(''status'', JStr ''healthy'')]) 200,
        (cached_world (JObj [(''status'', JStr ''healthy'')]))
          \<lparr>trace := [Invoke, image_call, Invoke]\<rparr>)
   \<and> (\<exists>c. handle (example_env (text_answer healthy_text)) image_request
             ((cached_world (JObj [(''status'', JStr ''healthy'')]))\<lparr>clock := 100\<rparr>)
           = (json_response (JObj [(''status'', JStr ''healthy'')]) 200,
              (cached_world (JObj [(''status'', JStr ''healthy'')]))
                \<lparr>clock := 100, analysis_cache := c, trace := [Invoke, image_call, Invoke]\<rparr>))"
proof -
  let ?E = "example_env (text_answer healthy_text)"
  let ?v = "JObj [(''status'', JStr ''healthy'')]"
  have first: "handle ?E image_request initial_world = (json_response ?v 200, cached_world ?v)"
    by (rule example_first_call) simp
  have a: "req_method image_request = ''POST''" "req_path image_request = ''/analyze''"
    "req_json image_request = Some (JObj [(''image_base64'', JStr ''AQID'')])"
    "truthy (dict_get [(''image_base64'', JStr ''AQID'')] ''image_base64'')"
    "b64decode ?E (dict_get [(''image_base64'', JStr ''AQID'')] ''image_base64'') = Inr [1, 2, 3]"
    "MAX_IMAGE_BYTES ?E = NoLimit
     \<or> (\<exists>max_bytes. MAX_IMAGE_BYTES ?E = Limit max_bytes \<and> int (length [1, 2, 3 :: 8 word]) \<le> max_bytes)"
    by (simp_all add: image_request_def analyze_request_def dict_get_def example_env_def)
  show ?thesis
    using
      analyze_cache_hit[OF a, where w = "cached_world ?v" and v = ?v and ts = 0]
      analyze_cache_hit[OF a, where w = initial_world and resp = "json_response ?v 200"
        and ?w1.0 = "cached_world ?v" and t = 100]
      first
    by (simp add: cached_world_def image_hash'_def example_env_def json_response_def
                  initial_world_def LRUCache_init_def)
qed

section \<open>The shape of failure responses\<close>

lemma handle_not_json:
  assumes "req_method r = ''POST''" and "\<not> (\<exists>payload. req_json r = Some (JObj payload))"
  shows "handle E r w = (error_response ''invalid_json'' ''Request body must be JSON'' 400, w)"
proof (cases "req_json r")
  case None
  with assms(1) show ?thesis by (simp add: handle_def)
next
  case (Some j)
  with assms show ?thesis by (cases j) (simp_all add: handle_def)
qed

lemma handle_post:
  assumes "req_method r = ''POST''" and "req_json r = Some (JObj payload)"
    and "dispatch E (if req_path r = [] then ''/'' else req_path r) payload w = (x, s)"
  shows "handle E r w =
     (case x of
        Inr resp \<Rightarrow> (resp, s)
      | Inl (ValueError m) \<Rightarrow> (error_response ''bad_request'' m 400, s)
      | Inl exc \<Rightarrow>
          (error_response ''gemini_failed'' ''Gemini request failed. Please retry.'' 502,
           emit (Print (ErrorTraceback exc)) s))"
  using assms by (simp add: handle_def Let_def)

text \<open>
  For a \<^verbatim>\<open>POST\<close> request every answer other than 200 is built by \<^verbatim>\<open>_error_response\<close>
  and has the three fields \<^verbatim>\<open>error\<close>, \<^verbatim>\<open>message\<close> and \<^verbatim>\<open>retryable\<close>, with status 400, 404
  or 502.
\<close>

lemma handle_post_error_envelope:
  assumes "req_method r = ''POST''" and "status (fst (handle E r w)) \<noteq> 200"
  shows "fst (handle E r w) = error_response ''invalid_json'' ''Request body must be JSON'' 400
       \<or> (\<exists>m. fst (handle E r w) = error_response ''bad_request'' m 400)
       \<or> fst (handle E r w) = error_response ''not_found'' ''Unknown endpoint'' 404
       \<or> fst (handle E r w)
           = error_response ''gemini_failed'' ''Gemini request failed. Please retry.'' 502"
proof (cases "\<exists>payload. req_json r = Some (JObj payload)")
  case False
  have "fst (handle E r w) = error_response ''invalid_json'' ''Request body must be JSON'' 400"
  proof (cases "req_json r")
    case None
    with assms(1) show ?thesis by (simp add: handle_def)
  next
    case (Some j)
    with False assms(1) show ?thesis by (cases j) (simp_all add: handle_def)
  qed
  then show ?thesis by simp
next
  case True
  then obtain payload where p: "req_json r = Some (JObj payload)" by blast
  obtain x s where d:
    "dispatch E (if req_path r = [] then ''/'' else req_path r) payload w = (x, s)"
    by (cases "dispatch E (if req_path r = [] then ''/'' else req_path r) payload w")
  show ?thesis
  proof (cases x)
    case (Inl e)
    with assms(1) p d
    have "(\<exists>m. fst (handle E r w) = error_response ''bad_request'' m 400)
          \<or> fst (handle E r w)
              = error_response ''gemini_failed'' ''Gemini request failed. Please retry.'' 502"
      by (cases e) (simp_all add: handle_def Let_def, blast)
    then show ?thesis by blast
  next
    case (Inr resp)
    with assms(1) p d have h: "fst (handle E r w) = resp" by (simp add: handle_def Let_def)
    have "status resp = 200 \<or> resp = error_response ''not_found'' ''Unknown endpoint'' 404"
    proof -
      consider (a) "(if req_path r = [] then ''/'' else req_path r) = ''/analyze''"
        | (c) "(if req_path r = [] then ''/'' else req_path r) \<noteq> ''/analyze''"
              "(if req_path r = [] then ''/'' else req_path r) = ''/chat''"
        | (n) "(if req_path r = [] then ''/'' else req_path r) \<noteq> ''/analyze''"
              "(if req_path r = [] then ''/'' else req_path r) \<noteq> ''/chat''"
        by blast
      then show ?thesis
      proof cases
        case a
        obtain y s' where "call_with_retry (analyze E payload) 2 w = (y, s')"
          by (cases "call_with_retry (analyze E payload) 2 w")
        with d Inr a show ?thesis
          by (cases y) (auto simp: dispatch_def json_response_def)
      next
        case c
        obtain y s' where "call_with_retry (chat E payload) 2 w = (y, s')"
          by (cases "call_with_retry (chat E payload) 2 w")
        with d Inr c show ?thesis
          by (cases y) (auto simp: dispatch_def json_response_def)
      next
        case n
        with d Inr show ?thesis by (simp add: dispatch_def)
      qed
    qed
    with assms(2) h show ?thesis by blast
  qed
qed

text \<open>
  Claim C7 says that every failure body has the fields \<^verbatim>\<open>error\<close>, \<^verbatim>\<open>message\<close> and
  \<^verbatim>\<open>retryable\<close>. The answer to a request whose method is not \<^verbatim>\<open>POST\<close> is the one failure
  that \<^verbatim>\<open>handle\<close> does not build with \<^verbatim>\<open>_error_response\<close>: its status is 405 and its body
  holds the field \<^verbatim>\<open>error\<close> alone.
\<close>

theorem method_not_allowed_body:
  "handle (example_env (text_answer ''{}''))
     \<lparr>req_method = ''GET'', req_path = ''/analyze'', req_json = Some (JObj [])\<rparr> initial_world
   = (\<lparr>body = JObj [(''error'', JStr ''method_not_allowed'')], status = 405\<rparr>, initial_world)"
  by (simp add: handle_def json_response_def)

section \<open>The chat operation and the cache\<close>

lemma cache_blindD:
  "cache_blind f \<Longrightarrow> f (w\<lparr>analysis_cache := c\<rparr>) = (fst (f w), (snd (f w))\<lparr>analysis_cache := c\<rparr>)"
  by (simp add: cache_blind_def)

lemma cache_blind_keeps:
  assumes "cache_blind f"
  shows "analysis_cache (snd (f w)) = analysis_cache w"
proof -
  have "f (w\<lparr>analysis_cache := analysis_cache w\<rparr>)
        = (fst (f w), (snd (f w))\<lparr>analysis_cache := analysis_cache w\<rparr>)"
    using assms by (rule cache_blindD)
  then have "snd (f w) = (snd (f w))\<lparr>analysis_cache := analysis_cache w\<rparr>"
    by simp (metis snd_conv)
  then have "analysis_cache (snd (f w))
             = analysis_cache ((snd (f w))\<lparr>analysis_cache := analysis_cache w\<rparr>)" by simp
  then show ?thesis by simp
qed

lemma emit_cache: "emit ev (w\<lparr>analysis_cache := c\<rparr>) = (emit ev w)\<lparr>analysis_cache := c\<rparr>"
  by (simp add: emit_def)

lemma sleep_cache: "sleep d (w\<lparr>analysis_cache := c\<rparr>) = (sleep d w)\<lparr>analysis_cache := c\<rparr>"
  by (simp add: sleep_def emit_def)

lemma get_client_blind: "cache_blind (get_client E)"
  by (simp add: cache_blind_def get_client_def split: option.splits)

lemma generate_blind: "cache_blind (generate_content E cs)"
  by (simp add: cache_blind_def generate_content_def emit_def)

lemma chat_message_blind: "cache_blind (chat_message E i msg)"
  by (cases msg)
     (auto simp: cache_blind_def chat_message_def emit_def Let_def
           split: sum.splits option.splits)

lemma chat_loop_blind: "cache_blind (chat_loop E i msgs cs)"
proof (induction msgs arbitrary: i cs)
  case Nil
  show ?case by (simp add: cache_blind_def)
next
  case (Cons msg msgs)
  show ?case
    unfolding cache_blind_def
  proof (intro allI)
    fix w c
    obtain x s where m: "chat_message E i msg w = (x, s)" by (cases "chat_message E i msg w")
    then have m': "chat_message E i msg (w\<lparr>analysis_cache := c\<rparr>) = (x, s\<lparr>analysis_cache := c\<rparr>)"
      using cache_blindD[OF chat_message_blind[of E i msg], where w = w and c = c]
      by simp
    show "chat_loop E i (msg # msgs) cs (w\<lparr>analysis_cache := c\<rparr>)
          = (fst (chat_loop E i (msg # msgs) cs w),
             (snd (chat_loop E i (msg # msgs) cs w))\<lparr>analysis_cache := c\<rparr>)"
      using m m' cache_blindD[OF Cons.IH]
      by (simp split: sum.splits option.splits)
  qed
qed


lemma chat_blind: "cache_blind (chat E payload)"
  unfolding cache_blind_def
proof (intro allI)
  fix w :: world and c :: LRUCache
  let ?wc = "w\<lparr>analysis_cache := c\<rparr>"
  show "chat E payload ?wc = (fst (chat E payload w), (snd (chat E payload w))\<lparr>analysis_cache := c\<rparr>)"
  proof (cases "\<exists>messages. dict_get payload ''messages'' = JArr messages")
    case False
    then show ?thesis by (cases "dict_get payload ''messages''") (simp_all add: chat_def)
  next
    case True
    then obtain messages where ms: "dict_get payload ''messages'' = JArr messages" by blast
    obtain x1 w1 where g: "get_client E w = (x1, w1)" by (cases "get_client E w")
    then have g': "get_client E ?wc = (x1, w1\<lparr>analysis_cache := c\<rparr>)"
      using cache_blindD[OF get_client_blind[of E], where w = w and c = c] by simp
    show ?thesis
    proof (cases x1)
      case (Inl e)
      with ms g g' show ?thesis by (simp add: chat_def Let_def)
    next
      case (Inr u)
      let ?ctxt = "if truthy (dict_get payload ''plant_context'')
                      then dict_get payload ''plant_context'' else JObj []"
      let ?w3 = "emit (Print (DebugContext ?ctxt))
                   (emit (Print (DebugReceived (length messages))) w1)"
      have w3: "emit (Print (DebugContext ?ctxt))
                   (emit (Print (DebugReceived (length messages))) (w1\<lparr>analysis_cache := c\<rparr>))
                = ?w3\<lparr>analysis_cache := c\<rparr>"
        by (simp add: emit_cache)
      show ?thesis
      proof (cases "\<exists>ctx. ?ctxt = JObj ctx")
        case False
        with ms g g' Inr show ?thesis
          by (cases ?ctxt) (simp_all add: chat_def Let_def emit_cache del: truthy.simps)
      next
        case True
        then obtain ctx where ctx: "?ctxt = JObj ctx" by blast
        let ?c0 = "if messages \<noteq> [] then
                     [\<lparr>role = ''user'', parts = [Part_from_text (build_chat_prompt E ctx)]\<rparr>,
                      \<lparr>role = ''model'', parts = [Part_from_text
                         ''Understood. I'll provide plant care assistance with JSON responses.'']\<rparr>]
                   else []"
        obtain x4 w4 where l: "chat_loop E 0 messages ?c0 ?w3 = (x4, w4)"
          by (cases "chat_loop E 0 messages ?c0 ?w3")
        then have l': "chat_loop E 0 messages ?c0 (?w3\<lparr>analysis_cache := c\<rparr>)
                       = (x4, w4\<lparr>analysis_cache := c\<rparr>)"
          using cache_blindD[OF chat_loop_blind[of E 0 messages ?c0], where w = ?w3 and c = c]
          by simp
        show ?thesis
        proof (cases x4)
          case (Inl e)
          with ms g g' Inr ctx l l' w3 show ?thesis
            by (simp add: chat_def Let_def del: truthy.simps)
        next
          case (Inr contents)
          let ?w5 = "emit (Print (DebugTotal (length contents))) w4"
          obtain x6 w6 where gen: "generate_content E contents ?w5 = (x6, w6)"
            by (cases "generate_content E contents ?w5")
          then have gen': "generate_content E contents (?w5\<lparr>analysis_cache := c\<rparr>)
                           = (x6, w6\<lparr>analysis_cache := c\<rparr>)"
            using cache_blindD[OF generate_blind[of E contents], where w = ?w5 and c = c]
            by simp
          from ms g g' \<open>x1 = Inr u\<close> ctx l l' w3 Inr gen gen' show ?thesis
            by (cases x6) (simp_all add: chat_def Let_def emit_cache del: truthy.simps)
        qed
      qed
    qed
  qed
qed

lemma retry_loop_blind:
  "cache_blind func \<Longrightarrow>
   retry_loop func n a d (w\<lparr>analysis_cache := c\<rparr>)
   = (fst (retry_loop func n a d w), (snd (retry_loop func n a d w))\<lparr>analysis_cache := c\<rparr>)"
proof (induction func n a d w rule: retry_loop.induct)
  case (1 func max_retries attempt delay w)
  show ?case
  proof (cases "attempt < max_retries + 1")
    case False
    then show ?thesis
      by (subst retry_loop.simps, subst (2) retry_loop.simps, subst (3) retry_loop.simps) simp
  next
    case True
    obtain x s where f: "func (emit Invoke w) = (x, s)" by (cases "func (emit Invoke w)")
    then have f': "func (emit Invoke (w\<lparr>analysis_cache := c\<rparr>)) = (x, s\<lparr>analysis_cache := c\<rparr>)"
      using cache_blindD[OF "1.prems", where w = "emit Invoke w" and c = c]
      by (simp add: emit_cache)
    show ?thesis
    proof (cases x)
      case (Inr v)
      with True f f' show ?thesis
        by (subst retry_loop.simps, subst (2) retry_loop.simps, subst (3) retry_loop.simps) simp
    next
      case (Inl e)
      show ?thesis
      proof (cases "attempt = max_retries")
        case True
        with \<open>attempt < max_retries + 1\<close> Inl f f' show ?thesis
          by (subst retry_loop.simps, subst (2) retry_loop.simps, subst (3) retry_loop.simps) simp
      next
        case False
        have unf: "retry_loop func max_retries attempt delay w'
                   = retry_loop func max_retries (attempt + 1) (delay * 2) (sleep delay s')"
          if "func (emit Invoke w') = (Inl e, s')" for w' s'
          using that True False by (subst retry_loop.simps) simp
        show ?thesis
          using "1.IH"[OF True f[symmetric] Inl False "1.prems"] f f' Inl
          by (simp add: unf sleep_cache)
      qed
    qed
  qed
qed

lemma call_with_retry_blind: "cache_blind func \<Longrightarrow> cache_blind (call_with_retry func n)"
  by (simp add: cache_blind_def call_with_retry_def retry_loop_blind)


lemma handle_chat_blind:
  assumes "req_path r = ''/chat''"
  shows "cache_blind (handle E r)"
  unfolding cache_blind_def
proof (intro allI)
  fix w :: world and c :: LRUCache
  show "handle E r (w\<lparr>analysis_cache := c\<rparr>)
        = (fst (handle E r w), (snd (handle E r w))\<lparr>analysis_cache := c\<rparr>)"
  proof (cases "req_method r = ''POST'' \<and> (\<exists>payload. req_json r = Some (JObj payload))")
    case False
    then consider "req_method r \<noteq> ''POST''"
      | "req_method r = ''POST''" "\<not> (\<exists>payload. req_json r = Some (JObj payload))" by blast
    then show ?thesis
    proof cases
      case 1
      then show ?thesis by (simp add: handle_def)
    next
      case 2
      then show ?thesis by (simp add: handle_not_json)
    qed
  next
    case True
    then obtain payload where p: "req_method r = ''POST''" "req_json r = Some (JObj payload)"
      by blast
    obtain x s where cr: "call_with_retry (chat E payload) 2 w = (x, s)"
      by (cases "call_with_retry (chat E payload) 2 w")
    then have cr': "call_with_retry (chat E payload) 2 (w\<lparr>analysis_cache := c\<rparr>)
                    = (x, s\<lparr>analysis_cache := c\<rparr>)"
      using cache_blindD[OF call_with_retry_blind[OF chat_blind[of E payload], of 2],
                         where w = w and c = c]
      by simp
    have path: "(if req_path r = [] then ''/'' else req_path r) = ''/chat''"
      using assms by simp
    have d: "dispatch E ''/chat'' payload w
             = (case x of Inl e \<Rightarrow> Inl e | Inr data \<Rightarrow> Inr (json_response data 200), s)"
      using cr by (cases x) (simp_all add: dispatch_def)
    have d': "dispatch E ''/chat'' payload (w\<lparr>analysis_cache := c\<rparr>)
             = (case x of Inl e \<Rightarrow> Inl e | Inr data \<Rightarrow> Inr (json_response data 200),
                s\<lparr>analysis_cache := c\<rparr>)"
      using cr' by (cases x) (simp_all add: dispatch_def)
    show ?thesis
      using handle_post[OF p, of E w, unfolded path, OF d]
            handle_post[OF p, of E "w\<lparr>analysis_cache := c\<rparr>", unfolded path, OF d']
      by (cases x; simp add: emit_cache split: exn.splits)
  qed
qed

text \<open>
  Claim C9. \<^verbatim>\<open>_chat\<close> neither reads nor writes the analysis cache: with any other cache in
  place of the current one it returns the same result and leaves that cache as it was,
  entries and order included; in particular it leaves the current cache unchanged. The
  same holds for the whole handling of a request to \<^verbatim>\<open>/chat\<close>, retries included.
\<close>

theorem chat_leaves_cache:
  "chat E payload (w\<lparr>analysis_cache := c\<rparr>)
     = (fst (chat E payload w), (snd (chat E payload w))\<lparr>analysis_cache := c\<rparr>)
   \<and> analysis_cache (snd (chat E payload w)) = analysis_cache w
   \<and> (req_path r = ''/chat'' \<longrightarrow>
        handle E r (w\<lparr>analysis_cache := c\<rparr>)
          = (fst (handle E r w), (snd (handle E r w))\<lparr>analysis_cache := c\<rparr>)
        \<and> analysis_cache (snd (handle E r w)) = analysis_cache w)"
  using cache_blindD[OF chat_blind] cache_blind_keeps[OF chat_blind]
        cache_blindD[OF handle_chat_blind] cache_blind_keeps[OF handle_chat_blind]
  by blast

theorem chat_leaves_cache_witness:
  "req_path (chat_request [(''messages'', JArr [JObj [(''content'', JStr ''hello'')]])]) = ''/chat''
   \<and> analysis_cache (snd (handle (example_env (text_answer healthy_text))
          (chat_request [(''messages'', JArr [JObj [(''content'', JStr ''hello'')]])])
          (cached_world (JObj [(''status'', JStr ''healthy'')]))))
       = analysis_cache (cached_world (JObj [(''status'', JStr ''healthy'')]))"
  using chat_leaves_cache[where r = "chat_request [(''messages'', JArr [JObj [(''content'', JStr ''hello'')]])]"
        and E = "example_env (text_answer healthy_text)"
        and w = "cached_world (JObj [(''status'', JStr ''healthy'')])"]
  by (simp add: chat_request_def)

section \<open>Basic facts about the chat loop and the client\<close>



lemma get_client_ready:
  assumes "client_ready E s"
  shows "get_client E s = (Inr (), s\<lparr>client := True\<rparr>)"
proof (cases "client s")
  case True
  then have "s\<lparr>client := True\<rparr> = s" by simp
  with True show ?thesis by (simp add: get_client_def)
next
  case False
  with assms show ?thesis
    by (auto simp: client_ready_def get_client_def split: option.splits)
qed

lemma quiet_emit_Print: "quiet (emit (Print d) w) = quiet w"
  by (simp add: quiet_def emit_def)

lemma quiet_client: "quiet w = quiet w' \<Longrightarrow> client w = client w'"
  by (metis quiet_def world.select_convs(2) world.surjective world.update_convs(4))

lemma chat_message_quiet: "quiet (snd (chat_message E i msg w)) = quiet w"
  by (cases msg)
     (auto simp: chat_message_def Let_def quiet_emit_Print split: sum.splits option.splits)

lemma chat_message_ok:
  "well_formed_message msg \<Longrightarrow> \<not> isl (fst (chat_message E i msg w))"
proof (cases msg)
  case (JObj m)
  assume "well_formed_message msg"
  with JObj have r: "str_or_missing (map_of m ''role'')" and c: "str_or_missing (map_of m ''content'')"
    by simp_all
  from r obtain role0 where r': "str_method (str_lower E)
        (case map_of m ''role'' of None \<Rightarrow> JStr ''user'' | Some r \<Rightarrow> r) = Inr role0"
    by (cases "map_of m ''role''" rule: str_or_missing.cases) auto
  from c obtain ct where c': "str_method (str_strip E)
        (case map_of m ''content'' of None \<Rightarrow> JStr [] | Some t \<Rightarrow> t) = Inr ct"
    by (cases "map_of m ''content''" rule: str_or_missing.cases) auto
  show ?thesis
    unfolding JObj
    by (simp add: chat_message_def r' c' Let_def split: sum.splits prod.splits)
qed simp_all

lemma chat_loop_quiet: "quiet (snd (chat_loop E i msgs cs w)) = quiet w"
proof (induction msgs arbitrary: i cs w)
  case Nil
  show ?case by simp
next
  case (Cons msg msgs)
  obtain x s where m: "chat_message E i msg w = (x, s)" by (cases "chat_message E i msg w")
  then have q: "quiet s = quiet w" using chat_message_quiet[of E i msg w] by simp
  show ?case
    using m q Cons.IH by (simp split: sum.splits option.splits)
qed

lemma chat_loop_ok:
  "\<forall>msg \<in> set msgs. well_formed_message msg \<Longrightarrow> \<not> isl (fst (chat_loop E i msgs cs w))"
proof (induction msgs arbitrary: i cs w)
  case Nil
  show ?case by simp
next
  case (Cons msg msgs)
  obtain x s where m: "chat_message E i msg w = (x, s)" by (cases "chat_message E i msg w")
  with Cons.prems have "\<not> isl x" using chat_message_ok[of msg E i w] by simp
  then obtain c where x: "x = Inr c" by (cases x) simp_all
  show ?case
    using m x Cons.IH Cons.prems by (cases c) simp_all
qed

section \<open>Images of chat messages that fail to decode\<close>

lemma map_of_filter_other:
  "k' \<noteq> k \<Longrightarrow> map_of (filter (\<lambda>p. fst p \<noteq> k) m) k' = map_of m k'"
  by (induction m) auto

lemma dict_get_filter_same: "dict_get (filter (\<lambda>p. fst p \<noteq> k) m) k = JNull"
proof -
  have "map_of (filter (\<lambda>p. fst p \<noteq> k) m) k = None"
    by (auto simp: map_of_eq_None_iff)
  then show ?thesis by (simp add: dict_get_def)
qed

lemma chat_message_fst: "fst (chat_message E i msg w) = fst (chat_message E i msg w')"
  by (cases msg)
     (auto simp: chat_message_def Let_def split: sum.splits option.splits)

lemma chat_message_image_dropped:
  assumes "truthy (dict_get m ''image_base64'')"
    and "b64decode E (dict_get m ''image_base64'') = Inl e"
  shows "fst (chat_message E i (JObj m) w)
         = fst (chat_message E i (JObj (filter (\<lambda>p. fst p \<noteq> ''image_base64'') m)) w)"
    and "\<not> isl (fst (chat_message E i (JObj m) w)) \<Longrightarrow>
         Print (WarningDecode i e) \<in> set (trace (snd (chat_message E i (JObj m) w)))"
  using assms
  by (auto simp: chat_message_def Let_def map_of_filter_other dict_get_filter_same emit_def
           split: sum.splits option.splits)

lemma chat_loop_fst: "fst (chat_loop E i msgs cs w) = fst (chat_loop E i msgs cs w')"
proof (induction msgs arbitrary: i cs w w')
  case Nil
  show ?case by simp
next
  case (Cons msg msgs)
  obtain x s where m: "chat_message E i msg w = (x, s)" by (cases "chat_message E i msg w")
  obtain x' s' where m': "chat_message E i msg w' = (x', s')" by (cases "chat_message E i msg w'")
  have x: "x' = x" using chat_message_fst[of E i msg w w'] m m' by simp
  show ?case
  proof (cases x)
    case (Inl e)
    with m m' x show ?thesis by simp
  next
    case (Inr c)
    with m m' x Cons.IH[of "Suc i" _ s s'] show ?thesis by (cases c) simp_all
  qed
qed

lemma chat_loop_replace:
  assumes "\<And>w. fst (chat_message E (i + length pre) a w) = fst (chat_message E (i + length pre) b w)"
  shows "fst (chat_loop E i (pre @ a # post) cs w) = fst (chat_loop E i (pre @ b # post) cs w)"
  using assms
proof (induction pre arbitrary: i cs w)
  case Nil
  obtain x s where m: "chat_message E i a w = (x, s)" by (cases "chat_message E i a w")
  obtain x' s' where m': "chat_message E i b w = (x', s')" by (cases "chat_message E i b w")
  have x: "x' = x" using Nil[of w] m m' by simp
  show ?case
  proof (cases x)
    case (Inl e)
    with m m' x show ?thesis by simp
  next
    case (Inr c)
    with m m' x chat_loop_fst[of E "Suc i" post _ s s'] show ?thesis by (cases c) simp_all
  qed
next
  case (Cons msg pre)
  obtain x s where m: "chat_message E i msg w = (x, s)" by (cases "chat_message E i msg w")
  have ih: "fst (chat_loop E (Suc i) (pre @ a # post) cs' s)
            = fst (chat_loop E (Suc i) (pre @ b # post) cs' s)" for cs'
    by (rule Cons.IH) (use Cons.prems in simp)
  show ?case
  proof (cases x)
    case (Inl e)
    with m show ?thesis by simp
  next
    case (Inr c)
    with m ih show ?thesis by (cases c) simp_all
  qed
qed


lemma filter_Generate_quiet:
  "filter is_Generate (filter (\<lambda>ev. \<not> is_Print ev) t) = filter is_Generate t"
proof (induction t)
  case Nil
  show ?case by simp
next
  case (Cons ev t)
  then show ?case by (cases ev) simp_all
qed

lemma quiet_trace: "trace (quiet w) = filter (\<lambda>ev. \<not> is_Print ev) (trace w)"
  by (simp add: quiet_def)

lemma quiet_Generate:
  assumes "quiet w = quiet w'"
  shows "filter is_Generate (trace w) = filter is_Generate (trace w')"
proof -
  have "filter is_Generate (trace (quiet w)) = filter is_Generate (trace (quiet w'))"
    using assms by simp
  then show ?thesis by (simp only: quiet_trace filter_Generate_quiet)
qed

lemma quiet_emit:
  "quiet (emit ev w) = (if is_Print ev then quiet w else emit ev (quiet w))"
  by (simp add: quiet_def emit_def)

lemma quiet_emit_cong: "quiet w = quiet w' \<Longrightarrow> quiet (emit ev w) = quiet (emit ev w')"
  by (simp add: quiet_emit)

lemma quiet_sleep_cong: "quiet w = quiet w' \<Longrightarrow> quiet (sleep d w) = quiet (sleep d w')"
proof -
  assume q: "quiet w = quiet w'"
  have "quiet (sleep d s) = sleep d (quiet s)" for s
    by (simp add: quiet_def sleep_def emit_def)
  with q show ?thesis by simp
qed

lemma quiet_client_update:
  "quiet w = quiet w' \<Longrightarrow> quiet (w\<lparr>client := b\<rparr>) = quiet (w'\<lparr>client := b\<rparr>)"
proof -
  assume q: "quiet w = quiet w'"
  have "quiet (s\<lparr>client := b\<rparr>) = (quiet s)\<lparr>client := b\<rparr>" for s
    by (simp add: quiet_def)
  with q show ?thesis by simp
qed

lemma get_client_quiet:
  assumes "quiet w = quiet w'"
  shows "fst (get_client E w) = fst (get_client E w')
       \<and> quiet (snd (get_client E w)) = quiet (snd (get_client E w'))"
proof -
  have c: "client w = client w'" using assms by (rule quiet_client)
  show ?thesis
    using assms c quiet_client_update[OF assms, of True]
    by (simp add: get_client_def split: option.splits)
qed

lemma generate_quiet:
  assumes "quiet w = quiet w'"
  shows "fst (generate_content E cs w) = fst (generate_content E cs w')
       \<and> quiet (snd (generate_content E cs w)) = quiet (snd (generate_content E cs w'))"
  using quiet_Generate[OF assms] quiet_emit_cong[OF assms]
  by (simp add: generate_content_def)


lemma chat_unfold:
  assumes "dict_get payload ''messages'' = JArr msgs"
    and "ctxt = (if truthy (dict_get payload ''plant_context'')
                 then dict_get payload ''plant_context'' else JObj [])"
    and "get_client E w = (x1, w1)"
    and "w3 = emit (Print (DebugContext ctxt)) (emit (Print (DebugReceived (length msgs))) w1)"
  shows "chat E payload w =
     (case x1 of
        Inl e \<Rightarrow> (Inl e, w1)
      | Inr u \<Rightarrow>
          (case ctxt of
             JObj ctx \<Rightarrow>
               (case chat_loop E 0 msgs
                       (if msgs \<noteq> [] then
                          [\<lparr>role = ''user'', parts = [Part_from_text (build_chat_prompt E ctx)]\<rparr>,
                           \<lparr>role = ''model'', parts = [Part_from_text
                              ''Understood. I'll provide plant care assistance with JSON responses.'']\<rparr>]
                        else []) w3 of
                  (Inl e, w4) \<Rightarrow> (Inl e, w4)
                | (Inr contents, w4) \<Rightarrow>
                    (case generate_content E contents
                            (emit (Print (DebugTotal (length contents))) w4) of
                       (Inl e, w6) \<Rightarrow> (Inl e, w6)
                     | (Inr resp, w6) \<Rightarrow> (extract_json E (extract_text resp), w6)))
           | _ \<Rightarrow> (Inl AttributeError, w3)))"
  unfolding chat_def assms(1) assms(2)[symmetric] Let_def json.case assms(3) prod.case
            assms(4)[symmetric]
  by (cases x1) simp_all

lemma chat_quiet:
  assumes ms: "dict_get payload ''messages'' = JArr msgs"
    and ms': "dict_get payload' ''messages'' = JArr msgs'"
    and ne: "(msgs = []) = (msgs' = [])"
    and pc: "dict_get payload' ''plant_context'' = dict_get payload ''plant_context''"
    and loop: "\<And>cs s. fst (chat_loop E 0 msgs cs s) = fst (chat_loop E 0 msgs' cs s)"
    and q: "quiet w = quiet w'"
  shows "fst (chat E payload w) = fst (chat E payload' w')
       \<and> quiet (snd (chat E payload w)) = quiet (snd (chat E payload' w'))"
proof -
  define ctxt where "ctxt = (if truthy (dict_get payload ''plant_context'')
               then dict_get payload ''plant_context'' else JObj [])"
  then have ctxt': "ctxt = (if truthy (dict_get payload' ''plant_context'')
               then dict_get payload' ''plant_context'' else JObj [])"
    by (simp only: pc)
  obtain x1 w1 where g: "get_client E w = (x1, w1)" by (cases "get_client E w")
  obtain x1' w1' where g': "get_client E w' = (x1', w1')" by (cases "get_client E w'")
  from get_client_quiet[OF q, of E] g g' have x1: "x1' = x1" and q1: "quiet w1 = quiet w1'"
    by simp_all
  define w3 where "w3 = emit (Print (DebugContext ctxt)) (emit (Print (DebugReceived (length msgs))) w1)"
  define w3' where "w3' = emit (Print (DebugContext ctxt)) (emit (Print (DebugReceived (length msgs'))) w1')"
  have q3: "quiet w3 = quiet w3'" using q1 by (simp add: w3_def w3'_def quiet_emit)
  note u = chat_unfold[OF ms ctxt_def g w3_def]
  note u' = chat_unfold[OF ms' ctxt' g' w3'_def]
  show ?thesis
  proof (cases x1)
    case (Inl e)
    with x1 q1 show ?thesis by (simp add: u u')
  next
    case (Inr un)
    show ?thesis
    proof (cases "\<exists>ctx. ctxt = JObj ctx")
      case False
      with x1 Inr q3 show ?thesis
        by (cases ctxt) (simp_all add: u u')
    next
      case True
      then obtain ctx where ctx: "ctxt = JObj ctx" by blast
      define c0 where "c0 = (if msgs \<noteq> [] then
                   [\<lparr>role = ''user'', parts = [Part_from_text (build_chat_prompt E ctx)]\<rparr>,
                    \<lparr>role = ''model'', parts = [Part_from_text
                       ''Understood. I'll provide plant care assistance with JSON responses.'']\<rparr>]
                 else [])"
      have c0': "c0 = (if msgs' \<noteq> [] then
                   [\<lparr>role = ''user'', parts = [Part_from_text (build_chat_prompt E ctx)]\<rparr>,
                    \<lparr>role = ''model'', parts = [Part_from_text
                       ''Understood. I'll provide plant care assistance with JSON responses.'']\<rparr>]
                 else [])"
        using ne by (simp add: c0_def)
      obtain x4 w4 where l: "chat_loop E 0 msgs c0 w3 = (x4, w4)"
        by (cases "chat_loop E 0 msgs c0 w3")
      obtain x4' w4' where l': "chat_loop E 0 msgs' c0 w3' = (x4', w4')"
        by (cases "chat_loop E 0 msgs' c0 w3'")
      have "x4' = fst (chat_loop E 0 msgs' c0 w3)"
        using l' chat_loop_fst[of E 0 msgs' c0 w3' w3] by simp
      then have x4: "x4' = x4" using loop[of c0 w3] l by simp
      have q4: "quiet w4 = quiet w4'"
        using chat_loop_quiet[of E 0 msgs c0 w3] chat_loop_quiet[of E 0 msgs' c0 w3'] l l' q3
        by simp
      have v: "chat E payload w =
                 (case x4 of Inl e \<Rightarrow> (Inl e, w4)
                  | Inr contents \<Rightarrow>
                      (case generate_content E contents
                              (emit (Print (DebugTotal (length contents))) w4) of
                         (Inl e, w6) \<Rightarrow> (Inl e, w6)
                       | (Inr resp, w6) \<Rightarrow> (extract_json E (extract_text resp), w6)))"
        using l unfolding u Inr ctx c0_def by (cases x4) (simp_all split del: if_split)
      have v': "chat E payload' w' =
                 (case x4 of Inl e \<Rightarrow> (Inl e, w4')
                  | Inr contents \<Rightarrow>
                      (case generate_content E contents
                              (emit (Print (DebugTotal (length contents))) w4') of
                         (Inl e, w6) \<Rightarrow> (Inl e, w6)
                       | (Inr resp, w6) \<Rightarrow> (extract_json E (extract_text resp), w6)))"
        using l'[unfolded x4] unfolding u' x1 Inr ctx c0' by (cases x4) (simp_all split del: if_split)
      show ?thesis
      proof (cases x4)
        case (Inl e)
        with q4 show ?thesis by (simp add: v v')
      next
        case (Inr contents)
        let ?w5 = "emit (Print (DebugTotal (length contents))) w4"
        let ?w5' = "emit (Print (DebugTotal (length contents))) w4'"
        have q5: "quiet ?w5 = quiet ?w5'" using q4 by (simp add: quiet_emit)
        obtain x6 w6 where gen: "generate_content E contents ?w5 = (x6, w6)"
          by (cases "generate_content E contents ?w5")
        obtain x6' w6' where gen': "generate_content E contents ?w5' = (x6', w6')"
          by (cases "generate_content E contents ?w5'")
        from generate_quiet[OF q5, of E contents] gen gen'
        have x6: "x6' = x6" and q6: "quiet w6 = quiet w6'" by simp_all
        from Inr gen gen' x6 q6 show ?thesis
          by (cases x6) (simp_all add: v v')
      qed
    qed
  qed
qed

lemma retry_loop_quiet:
  "\<forall>s s'. quiet s = quiet s' \<longrightarrow>
      fst (f s) = fst (f' s') \<and> quiet (snd (f s)) = quiet (snd (f' s')) \<Longrightarrow>
   quiet w = quiet w' \<Longrightarrow>
   fst (retry_loop f n a d w) = fst (retry_loop f' n a d w')
   \<and> quiet (snd (retry_loop f n a d w)) = quiet (snd (retry_loop f' n a d w'))"
proof (induction f n a d w arbitrary: w' rule: retry_loop.induct)
  case (1 func max_retries attempt delay w)
  note rel = "1.prems"(1)
  show ?case
  proof (cases "attempt < max_retries + 1")
    case False
    then show ?thesis
      using "1.prems"(2)
      by (subst retry_loop.simps, subst (2) retry_loop.simps,
          subst (3) retry_loop.simps, subst (4) retry_loop.simps) simp
  next
    case True
    obtain x s where f: "func (emit Invoke w) = (x, s)" by (cases "func (emit Invoke w)")
    obtain x' s' where f': "f' (emit Invoke w') = (x', s')" by (cases "f' (emit Invoke w')")
    have "quiet (emit Invoke w) = quiet (emit Invoke w')"
      using "1.prems"(2) by (rule quiet_emit_cong)
    with rel f f' have x: "x' = x" and qs: "quiet s = quiet s'"
      by (metis fst_conv, metis snd_conv)
    have unf: "retry_loop g max_retries attempt delay v
               = (case g (emit Invoke v) of
                    (Inr r, v') \<Rightarrow> (Inr r, v')
                  | (Inl e, v') \<Rightarrow>
                      if attempt = max_retries then (Inl e, v')
                      else retry_loop g max_retries (attempt + 1) (delay * 2) (sleep delay v'))"
      for g :: "world \<Rightarrow> (exn + 'a) \<times> world" and v
      using True by (subst retry_loop.simps) simp
    show ?thesis
    proof (cases x)
      case (Inr v)
      with f f' x qs show ?thesis by (simp add: unf)
    next
      case (Inl e)
      show ?thesis
      proof (cases "attempt = max_retries")
        case True
        with f f' x qs Inl unf[of func w] unf[of f' w'] show ?thesis by simp
      next
        case False
        have "quiet (sleep delay s) = quiet (sleep delay s')" using qs by (rule quiet_sleep_cong)
        from "1.IH"[OF True f[symmetric] Inl False rel this]
        show ?thesis using f f' x Inl False by (simp add: unf)
      qed
    qed
  qed
qed


lemma handle_chat_quiet:
  assumes "req_method r = ''POST''" and "req_path r = ''/chat''"
    and "req_json r = Some (JObj payload)"
    and "req_method r' = ''POST''" and "req_path r' = ''/chat''"
    and "req_json r' = Some (JObj payload')"
    and rel: "\<forall>s s'. quiet s = quiet s' \<longrightarrow>
            fst (chat E payload s) = fst (chat E payload' s')
            \<and> quiet (snd (chat E payload s)) = quiet (snd (chat E payload' s'))"
  shows "fst (handle E r w) = fst (handle E r' w)
       \<and> quiet (snd (handle E r w)) = quiet (snd (handle E r' w))"
proof -
  obtain x s where c: "call_with_retry (chat E payload) 2 w = (x, s)"
    by (cases "call_with_retry (chat E payload) 2 w")
  obtain x' s' where c': "call_with_retry (chat E payload') 2 w = (x', s')"
    by (cases "call_with_retry (chat E payload') 2 w")
  from retry_loop_quiet[OF rel, of w w 2 0 "8 / 10"] c c'
  have x: "x' = x" and q: "quiet s = quiet s'"
    by (simp_all add: call_with_retry_def)
  have d: "dispatch E ''/chat'' payload w
           = (case x of Inl e \<Rightarrow> Inl e | Inr data \<Rightarrow> Inr (json_response data 200), s)"
    using c by (cases x) (simp_all add: dispatch_def)
  have d': "dispatch E ''/chat'' payload' w
           = (case x of Inl e \<Rightarrow> Inl e | Inr data \<Rightarrow> Inr (json_response data 200), s')"
    using c' x by (cases x) (simp_all add: dispatch_def)
  have p: "(if req_path r = [] then ''/'' else req_path r) = ''/chat''"
    "(if req_path r' = [] then ''/'' else req_path r') = ''/chat''"
    using assms(2,5) by simp_all
  show ?thesis
    using handle_post[OF assms(1,3), of E w, unfolded p, OF d]
          handle_post[OF assms(4,6), of E w, unfolded p, OF d'] q
    by (cases x; simp add: quiet_emit split: exn.splits)
qed

lemma chat_image_dropped_equiv:
  assumes "truthy (dict_get m ''image_base64'')"
    and "b64decode E (dict_get m ''image_base64'') = Inl e"
  shows "fst (chat_message E i (JObj m) w)
           = fst (chat_message E i (JObj (filter (\<lambda>p. fst p \<noteq> ''image_base64'') m)) w)
       \<and> (\<not> isl (fst (chat_message E i (JObj m) w)) \<longrightarrow>
            Print (WarningDecode i e) \<in> set (trace (snd (chat_message E i (JObj m) w))))
       \<and> (dict_get payload ''messages'' = JArr (pre @ JObj m # post)
          \<and> dict_get payload' ''messages''
              = JArr (pre @ JObj (filter (\<lambda>p. fst p \<noteq> ''image_base64'') m) # post)
          \<and> dict_get payload' ''plant_context'' = dict_get payload ''plant_context'' \<longrightarrow>
            fst (chat E payload w) = fst (chat E payload' w)
          \<and> quiet (snd (chat E payload w)) = quiet (snd (chat E payload' w))
          \<and> fst (handle E (chat_request payload) w) = fst (handle E (chat_request payload') w)
          \<and> quiet (snd (handle E (chat_request payload) w))
              = quiet (snd (handle E (chat_request payload') w)))"
proof -
  let ?m' = "filter (\<lambda>p. fst p \<noteq> ''image_base64'') m"
  have msg: "fst (chat_message E j (JObj m) s) = fst (chat_message E j (JObj ?m') s)" for j s
    using assms by (rule chat_message_image_dropped(1))
  have warn: "\<not> isl (fst (chat_message E i (JObj m) w)) \<longrightarrow>
            Print (WarningDecode i e) \<in> set (trace (snd (chat_message E i (JObj m) w)))"
    using chat_message_image_dropped(2)[OF assms] by blast
  have req: "fst (chat E payload w) = fst (chat E payload' w)
          \<and> quiet (snd (chat E payload w)) = quiet (snd (chat E payload' w))
          \<and> fst (handle E (chat_request payload) w) = fst (handle E (chat_request payload') w)
          \<and> quiet (snd (handle E (chat_request payload) w))
              = quiet (snd (handle E (chat_request payload') w))"
    if h: "dict_get payload ''messages'' = JArr (pre @ JObj m # post)"
      "dict_get payload' ''messages'' = JArr (pre @ JObj ?m' # post)"
      "dict_get payload' ''plant_context'' = dict_get payload ''plant_context''"
  proof -
    have loop: "fst (chat_loop E 0 (pre @ JObj m # post) cs s)
                = fst (chat_loop E 0 (pre @ JObj ?m' # post) cs s)" for cs s
      by (rule chat_loop_replace) (rule msg)
    have rel: "fst (chat E payload s) = fst (chat E payload' s')
               \<and> quiet (snd (chat E payload s)) = quiet (snd (chat E payload' s'))"
      if "quiet s = quiet s'" for s s'
      by (rule chat_quiet[OF h(1,2) _ h(3) loop that]) simp
    then have rel': "\<forall>s s'. quiet s = quiet s' \<longrightarrow>
            fst (chat E payload s) = fst (chat E payload' s')
            \<and> quiet (snd (chat E payload s)) = quiet (snd (chat E payload' s'))"
      by blast
    have "fst (handle E (chat_request payload) w) = fst (handle E (chat_request payload') w)
          \<and> quiet (snd (handle E (chat_request payload) w))
              = quiet (snd (handle E (chat_request payload') w))"
      by (rule handle_chat_quiet[OF _ _ _ _ _ _ rel']) (simp_all add: chat_request_def)
    with rel[of w w] show ?thesis by simp
  qed
  from msg warn req show ?thesis by blast
qed

lemma chat_message_fst_any: "fst (chat_message E i msg w) = fst (chat_message E j msg w')"
  by (cases msg)
     (auto simp: chat_message_def Let_def split: sum.splits option.splits)

lemma chat_message_appends:
  "snd (chat_message E i msg w) = w\<lparr>trace := trace w @ message_trace E i msg\<rparr>"
  by (cases msg)
     (auto simp: message_trace_def chat_message_def Let_def emit_def initial_world_def
           split: sum.splits option.splits)

lemma chat_message_decode_failure:
  assumes "truthy (dict_get m ''image_base64'')"
    and "b64decode E (dict_get m ''image_base64'') = Inl e"
    and "str_method (str_lower E) (case map_of m ''role'' of None \<Rightarrow> JStr ''user'' | Some r \<Rightarrow> r)
         = Inr role0"
    and "str_method (str_strip E) (case map_of m ''content'' of None \<Rightarrow> JStr [] | Some t \<Rightarrow> t)
         = Inr content_text"
    and "role' = (if role0 = ''assistant'' then ''model'' else role0)"
  shows "chat_message E i (JObj m) w
         = (Inr (if content_text \<noteq> []
                 then Some \<lparr>role = role', parts = [Part_from_text content_text]\<rparr> else None),
            w\<lparr>trace := trace w
                 @ [Print (DebugMessage i role' (content_text \<noteq> []) True),
                    Print (WarningDecode i e)]
                 @ (if content_text \<noteq> [] then [Print (DebugAdding 1 role')] else [])\<rparr>)"
  using assms by (simp add: chat_message_def Let_def emit_def)

lemma chat_loop_wf:
  "\<forall>msg \<in> set msgs. well_formed_message msg \<Longrightarrow>
   chat_loop E i msgs cs w
   = (Inr (cs @ concat (map (message_contents E) msgs)),
      w\<lparr>trace := trace w @ concat (map (\<lambda>(j, msg). message_trace E j msg) (enumerate i msgs))\<rparr>)"
proof (induction msgs arbitrary: i cs w)
  case Nil
  show ?case by simp
next
  case (Cons msg msgs)
  let ?w1 = "w\<lparr>trace := trace w @ message_trace E i msg\<rparr>"
  from Cons.prems have "\<not> isl (fst (chat_message E i msg w))"
    using chat_message_ok[of msg E i w] by simp
  then obtain c where c: "fst (chat_message E i msg w) = Inr c"
    by (cases "fst (chat_message E i msg w)") simp_all
  then have m: "chat_message E i msg w = (Inr c, ?w1)"
    using chat_message_appends[of E i msg w] by (metis prod.collapse)
  have "fst (chat_message E 0 msg initial_world) = Inr c"
    using c chat_message_fst_any[of E 0 msg initial_world i w] by simp
  then have mc: "message_contents E msg = (case c of None \<Rightarrow> [] | Some x \<Rightarrow> [x])"
    by (simp add: message_contents_def split: option.splits)
  have ih: "chat_loop E (Suc i) msgs cs' ?w1
            = (Inr (cs' @ concat (map (message_contents E) msgs)),
               ?w1\<lparr>trace := trace ?w1
                 @ concat (map (\<lambda>(j, msg). message_trace E j msg) (enumerate (Suc i) msgs))\<rparr>)"
    for cs'
    by (rule Cons.IH) (use Cons.prems in simp)
  show ?case
    using m mc ih by (cases c) simp_all
qed


lemma message_trace_prints: "filter (\<lambda>ev. \<not> is_Print ev) (message_trace E i msg) = []"
proof -
  have "quiet (snd (chat_message E i msg initial_world)) = quiet initial_world"
    by (rule chat_message_quiet)
  then have "trace (quiet (snd (chat_message E i msg initial_world))) = trace (quiet initial_world)"
    by simp
  then show ?thesis by (simp add: quiet_trace message_trace_def initial_world_def)
qed

lemma message_traces_Generate:
  "filter is_Generate (concat (map (\<lambda>(j, msg). message_trace E j msg) jms)) = []"
proof (induction jms)
  case Nil
  show ?case by simp
next
  case (Cons jm jms)
  obtain j msg where jm: "jm = (j, msg)" by (cases jm)
  have "filter is_Generate (message_trace E j msg)
        = filter is_Generate (filter (\<lambda>ev. \<not> is_Print ev) (message_trace E j msg))"
    by (simp only: filter_Generate_quiet)
  then have "filter is_Generate (message_trace E j msg) = []"
    by (simp only: message_trace_prints filter.simps)
  with Cons jm show ?case by simp
qed

lemma chat_wf:
  assumes ms: "dict_get payload ''messages'' = JArr msgs"
    and wf: "\<forall>msg \<in> set msgs. well_formed_message msg"
    and ctx: "(if truthy (dict_get payload ''plant_context'')
               then dict_get payload ''plant_context'' else JObj []) = JObj ctx"
    and ready: "client_ready E w"
    and cs: "contents =
       (if msgs \<noteq> [] then
          [\<lparr>role = ''user'', parts = [Part_from_text (build_chat_prompt E ctx)]\<rparr>,
           \<lparr>role = ''model'', parts = [Part_from_text
              ''Understood. I'll provide plant care assistance with JSON responses.'']\<rparr>]
        else []) @ concat (map (message_contents E) msgs)"
  shows "chat E payload w =
     (case remote E (length (filter is_Generate (trace w))) (GEMINI_MODEL E) contents of
        Inl e \<Rightarrow> Inl e
      | Inr resp \<Rightarrow> extract_json E (extract_text resp),
      w\<lparr>client := True,
        trace := trace w
          @ [Print (DebugReceived (length msgs)), Print (DebugContext (JObj ctx))]
          @ concat (map (\<lambda>(j, msg). message_trace E j msg) (enumerate 0 msgs))
          @ [Print (DebugTotal (length contents)), Generate (GEMINI_MODEL E) contents]\<rparr>)"
proof -
  let ?w1 = "w\<lparr>client := True\<rparr>"
  define w3 where "w3 = emit (Print (DebugContext (JObj ctx)))
                          (emit (Print (DebugReceived (length msgs))) ?w1)"
  define c0 where "c0 = (if msgs \<noteq> [] then
          [\<lparr>role = ''user'', parts = [Part_from_text (build_chat_prompt E ctx)]\<rparr>,
           \<lparr>role = ''model'', parts = [Part_from_text
              ''Understood. I'll provide plant care assistance with JSON responses.'']\<rparr>]
        else [])"
  define w4 where "w4 = w3\<lparr>trace := trace w3
      @ concat (map (\<lambda>(j, msg). message_trace E j msg) (enumerate 0 msgs))\<rparr>"
  have gc: "get_client E w = (Inr (), ?w1)" using ready by (rule get_client_ready)
  have l: "chat_loop E 0 msgs c0 w3 = (Inr contents, w4)"
    unfolding w4_def cs c0_def[symmetric] by (rule chat_loop_wf[OF wf])
  have u: "chat E payload w =
             (case generate_content E contents (emit (Print (DebugTotal (length contents))) w4) of
                (Inl e, w6) \<Rightarrow> (Inl e, w6)
              | (Inr resp, w6) \<Rightarrow> (extract_json E (extract_text resp), w6))"
    using l unfolding chat_unfold[OF ms ctx[symmetric] gc w3_def] c0_def
    by (simp split del: if_split)
  have g: "filter is_Generate (trace (emit (Print (DebugTotal (length contents))) w4))
           = filter is_Generate (trace w)"
    by (simp add: emit_def w4_def w3_def message_traces_Generate)
  show ?thesis
    unfolding u generate_content_def g
    by (cases "remote E (length (filter is_Generate (trace w))) (GEMINI_MODEL E) contents")
       (simp_all add: emit_def w4_def w3_def)
qed

lemma str_method_Inr:
  "str_method f (case x of None \<Rightarrow> JStr d | Some r \<Rightarrow> r) = Inr s \<Longrightarrow> str_or_missing x"
proof (cases x)
  case None
  then show ?thesis by simp
next
  case (Some r)
  assume "str_method f (case x of None \<Rightarrow> JStr d | Some r \<Rightarrow> r) = Inr s"
  with Some show ?thesis by (cases r) simp_all
qed

text \<open>
  Claim C8. Let a chat message carry an image that fails to decode, its \<^verbatim>\<open>role\<close> and
  \<^verbatim>\<open>content\<close> being strings or missing. The loop raises nothing on it: it prints the
  warning with the error and appends the content without the image (the text alone, or
  nothing when there is no text). In a request whose other messages are well formed, with
  the client available, \<^verbatim>\<open>_chat\<close> goes on after the failure: the messages after it are
  processed, the remote model is called with the contents of all messages, the failed
  image left out, and the result of \<^verbatim>\<open>_chat\<close> is what the remote call and the parsing of
  its answer give. When that answer parses, the handler returns it with status 200 from
  the first attempt. Whatever the other messages and the remote model do, the handler
  answers as for the request with the image removed, and leaves the same state apart
  from printed lines.
\<close>

theorem chat_image_decode_failure:
  assumes img: "truthy (dict_get m ''image_base64'')"
    and dec: "b64decode E (dict_get m ''image_base64'') = Inl e"
    and role: "str_method (str_lower E)
                 (case map_of m ''role'' of None \<Rightarrow> JStr ''user'' | Some r \<Rightarrow> r) = Inr role0"
    and ct: "str_method (str_strip E)
               (case map_of m ''content'' of None \<Rightarrow> JStr [] | Some t \<Rightarrow> t) = Inr content_text"
    and role': "role' = (if role0 = ''assistant'' then ''model'' else role0)"
  shows "chat_message E i (JObj m) w
           = (Inr (if content_text \<noteq> []
                   then Some \<lparr>role = role', parts = [Part_from_text content_text]\<rparr> else None),
              w\<lparr>trace := trace w
                   @ [Print (DebugMessage i role' (content_text \<noteq> []) True),
                      Print (WarningDecode i e)]
                   @ (if content_text \<noteq> [] then [Print (DebugAdding 1 role')] else [])\<rparr>)
       \<and> (dict_get payload ''messages'' = JArr (pre @ JObj m # post)
          \<and> (\<forall>msg \<in> set (pre @ post). well_formed_message msg)
          \<and> (if truthy (dict_get payload ''plant_context'')
               then dict_get payload ''plant_context'' else JObj []) = JObj ctx
          \<and> client_ready E w
          \<and> contents =
               [\<lparr>role = ''user'', parts = [Part_from_text (build_chat_prompt E ctx)]\<rparr>,
                \<lparr>role = ''model'', parts = [Part_from_text
                   ''Understood. I'll provide plant care assistance with JSON responses.'']\<rparr>]
               @ concat (map (message_contents E) pre)
               @ (if content_text \<noteq> []
                  then [\<lparr>role = role', parts = [Part_from_text content_text]\<rparr>] else [])
               @ concat (map (message_contents E) post) \<longrightarrow>
            chat E payload w =
              (case remote E (length (filter is_Generate (trace w))) (GEMINI_MODEL E) contents of
                 Inl e' \<Rightarrow> Inl e'
               | Inr resp \<Rightarrow> extract_json E (extract_text resp),
               w\<lparr>client := True,
                 trace := trace w
                   @ [Print (DebugReceived (Suc (length pre + length post))),
                      Print (DebugContext (JObj ctx))]
                   @ concat (map (\<lambda>(j, msg). message_trace E j msg) (enumerate 0 pre))
                   @ [Print (DebugMessage (length pre) role' (content_text \<noteq> []) True),
                      Print (WarningDecode (length pre) e)]
                   @ (if content_text \<noteq> [] then [Print (DebugAdding 1 role')] else [])
                   @ concat (map (\<lambda>(j, msg). message_trace E j msg)
                               (enumerate (Suc (length pre)) post))
                   @ [Print (DebugTotal (length contents)),
                      Generate (GEMINI_MODEL E) contents]\<rparr>)
          \<and> (remote E (length (filter is_Generate (trace w))) (GEMINI_MODEL E) contents = Inr resp
             \<and> extract_json E (extract_text resp) = Inr data \<longrightarrow>
               handle E (chat_request payload) w
                 = (json_response data 200, snd (chat E payload (emit Invoke w)))))
       \<and> (dict_get payload ''messages'' = JArr (pre @ JObj m # post)
          \<and> dict_get payload' ''messages''
              = JArr (pre @ JObj (filter (\<lambda>p. fst p \<noteq> ''image_base64'') m) # post)
          \<and> dict_get payload' ''plant_context'' = dict_get payload ''plant_context'' \<longrightarrow>
            fst (handle E (chat_request payload) w) = fst (handle E (chat_request payload') w)
          \<and> quiet (snd (handle E (chat_request payload) w))
              = quiet (snd (handle E (chat_request payload') w)))"
proof (intro conjI impI)
  show one: "chat_message E i (JObj m) w
           = (Inr (if content_text \<noteq> []
                   then Some \<lparr>role = role', parts = [Part_from_text content_text]\<rparr> else None),
              w\<lparr>trace := trace w
                   @ [Print (DebugMessage i role' (content_text \<noteq> []) True),
                      Print (WarningDecode i e)]
                   @ (if content_text \<noteq> [] then [Print (DebugAdding 1 role')] else [])\<rparr>)"
    for i w
    using assms by (rule chat_message_decode_failure)
next
  assume h: "dict_get payload ''messages'' = JArr (pre @ JObj m # post)
          \<and> dict_get payload' ''messages''
              = JArr (pre @ JObj (filter (\<lambda>p. fst p \<noteq> ''image_base64'') m) # post)
          \<and> dict_get payload' ''plant_context'' = dict_get payload ''plant_context''"
  from chat_image_dropped_equiv[OF img dec, of i w payload pre post payload'] h
  show "fst (handle E (chat_request payload) w) = fst (handle E (chat_request payload') w)"
    and "quiet (snd (handle E (chat_request payload) w))
              = quiet (snd (handle E (chat_request payload') w))"
    by blast+
next
  assume h: "dict_get payload ''messages'' = JArr (pre @ JObj m # post)
          \<and> (\<forall>msg \<in> set (pre @ post). well_formed_message msg)
          \<and> (if truthy (dict_get payload ''plant_context'')
               then dict_get payload ''plant_context'' else JObj []) = JObj ctx
          \<and> client_ready E w
          \<and> contents =
               [\<lparr>role = ''user'', parts = [Part_from_text (build_chat_prompt E ctx)]\<rparr>,
                \<lparr>role = ''model'', parts = [Part_from_text
                   ''Understood. I'll provide plant care assistance with JSON responses.'']\<rparr>]
               @ concat (map (message_contents E) pre)
               @ (if content_text \<noteq> []
                  then [\<lparr>role = role', parts = [Part_from_text content_text]\<rparr>] else [])
               @ concat (map (message_contents E) post)"
  have wfm: "well_formed_message (JObj m)"
    using str_method_Inr[OF role] str_method_Inr[OF ct] by simp
  have wf: "\<forall>msg \<in> set (pre @ JObj m # post). well_formed_message msg"
    using h wfm by auto
  have mc: "message_contents E (JObj m)
            = (if content_text \<noteq> []
               then [\<lparr>role = role', parts = [Part_from_text content_text]\<rparr>] else [])"
    by (simp add: message_contents_def chat_message_decode_failure[OF assms])
  have mt: "message_trace E j (JObj m)
            = [Print (DebugMessage j role' (content_text \<noteq> []) True), Print (WarningDecode j e)]
              @ (if content_text \<noteq> [] then [Print (DebugAdding 1 role')] else [])" for j
    by (simp add: message_trace_def chat_message_decode_failure[OF assms] initial_world_def)
  have cs: "contents =
       (if pre @ JObj m # post \<noteq> [] then
          [\<lparr>role = ''user'', parts = [Part_from_text (build_chat_prompt E ctx)]\<rparr>,
           \<lparr>role = ''model'', parts = [Part_from_text
              ''Understood. I'll provide plant care assistance with JSON responses.'']\<rparr>]
        else []) @ concat (map (message_contents E) (pre @ JObj m # post))"
    using h by (simp add: mc)
  have c: "chat E payload s =
              (case remote E (length (filter is_Generate (trace s))) (GEMINI_MODEL E) contents of
                 Inl e' \<Rightarrow> Inl e'
               | Inr resp \<Rightarrow> extract_json E (extract_text resp),
               s\<lparr>client := True,
                 trace := trace s
                   @ [Print (DebugReceived (Suc (length pre + length post))),
                      Print (DebugContext (JObj ctx))]
                   @ concat (map (\<lambda>(j, msg). message_trace E j msg) (enumerate 0 pre))
                   @ [Print (DebugMessage (length pre) role' (content_text \<noteq> []) True),
                      Print (WarningDecode (length pre) e)]
                   @ (if content_text \<noteq> [] then [Print (DebugAdding 1 role')] else [])
                   @ concat (map (\<lambda>(j, msg). message_trace E j msg)
                               (enumerate (Suc (length pre)) post))
                   @ [Print (DebugTotal (length contents)),
                      Generate (GEMINI_MODEL E) contents]\<rparr>)"
    if "client_ready E s" for s
    using chat_wf[OF _ wf _ that cs, of payload] h
    by (simp add: enumerate_append_eq mt)
  show "chat E payload w =
              (case remote E (length (filter is_Generate (trace w))) (GEMINI_MODEL E) contents of
                 Inl e' \<Rightarrow> Inl e'
               | Inr resp \<Rightarrow> extract_json E (extract_text resp),
               w\<lparr>client := True,
                 trace := trace w
                   @ [Print (DebugReceived (Suc (length pre + length post))),
                      Print (DebugContext (JObj ctx))]
                   @ concat (map (\<lambda>(j, msg). message_trace E j msg) (enumerate 0 pre))
                   @ [Print (DebugMessage (length pre) role' (content_text \<noteq> []) True),
                      Print (WarningDecode (length pre) e)]
                   @ (if content_text \<noteq> [] then [Print (DebugAdding 1 role')] else [])
                   @ concat (map (\<lambda>(j, msg). message_trace E j msg)
                               (enumerate (Suc (length pre)) post))
                   @ [Print (DebugTotal (length contents)),
                      Generate (GEMINI_MODEL E) contents]\<rparr>)"
    using h by (intro c) blast
  assume r: "remote E (length (filter is_Generate (trace w))) (GEMINI_MODEL E) contents = Inr resp
             \<and> extract_json E (extract_text resp) = Inr data"
  have ready: "client_ready E (emit Invoke w)" using h by (simp add: client_ready_def emit_def)
  have g: "filter is_Generate (trace (emit Invoke w)) = filter is_Generate (trace w)"
    by (simp add: emit_def)
  have "fst (chat E payload (emit Invoke w)) = Inr data"
    using r unfolding c[OF ready] g by simp
  then have "chat E payload (emit Invoke w) = (Inr data, snd (chat E payload (emit Invoke w)))"
    by (metis prod.collapse)
  then have "call_with_retry (chat E payload) 2 w
             = (Inr data, snd (chat E payload (emit Invoke w)))"
    by (intro retry_first_success) simp_all
  then show "handle E (chat_request payload) w
                 = (json_response data 200, snd (chat E payload (emit Invoke w)))"
    by (simp add: handle_def dispatch_def chat_request_def)
qed

theorem chat_image_decode_failure_witness:
  "b64decode (example_env (text_answer healthy_text)) (JStr ''AQI'')
     = Inl (ValueError ''Incorrect padding'')
   \<and> fst (handle (example_env (text_answer healthy_text))
            (chat_request [(''messages'',
               JArr [JObj [(''content'', JStr ''hello''), (''image_base64'', JStr ''AQI'')],
                     JObj [(''content'', JStr ''bye'')]])])
            initial_world)
       = json_response (JObj [(''status'', JStr ''healthy'')]) 200
   \<and> trace (snd (handle (example_env (text_answer healthy_text))
            (chat_request [(''messages'',
               JArr [JObj [(''content'', JStr ''hello''), (''image_base64'', JStr ''AQI'')],
                     JObj [(''content'', JStr ''bye'')]])])
            initial_world))
       = [Invoke, Print (DebugReceived 2), Print (DebugContext (JObj [])),
          Print (DebugMessage 0 ''user'' True True),
          Print (WarningDecode 0 (ValueError ''Incorrect padding'')),
          Print (DebugAdding 1 ''user''),
          Print (DebugMessage 1 ''user'' True False), Print (DebugAdding 1 ''user''),
          Print (DebugTotal 4),
          Generate ''gemini-3-flash-preview''
            [\<lparr>role = ''user'', parts = [Part_from_text ''chat'']\<rparr>,
             \<lparr>role = ''model'', parts = [Part_from_text
                ''Understood. I'll provide plant care assistance with JSON responses.'']\<rparr>,
             \<lparr>role = ''user'', parts = [Part_from_text ''hello'']\<rparr>,
             \<lparr>role = ''user'', parts = [Part_from_text ''bye'']\<rparr>]]"
proof -
  let ?E = "example_env (text_answer healthy_text)"
  let ?m = "[(''content'', JStr ''hello''), (''image_base64'', JStr ''AQI'')]"
  let ?payload = "[(''messages'', JArr [JObj ?m, JObj [(''content'', JStr ''bye'')]])]"
  let ?contents = "[\<lparr>role = ''user'', parts = [Part_from_text ''chat'']\<rparr>,
             \<lparr>role = ''model'', parts = [Part_from_text
                ''Understood. I'll provide plant care assistance with JSON responses.'']\<rparr>,
             \<lparr>role = ''user'', parts = [Part_from_text ''hello'']\<rparr>,
             \<lparr>role = ''user'', parts = [Part_from_text ''bye'']\<rparr>]"
  have t: "truthy (dict_get ?m ''image_base64'')" by (simp add: dict_get_def)
  have d: "b64decode ?E (dict_get ?m ''image_base64'') = Inl (ValueError ''Incorrect padding'')"
    by (simp add: dict_get_def example_env_def)
  have r: "str_method (str_lower ?E)
             (case map_of ?m ''role'' of None \<Rightarrow> JStr ''user'' | Some r \<Rightarrow> r) = Inr ''user''"
    by (simp add: example_env_def)
  have c: "str_method (str_strip ?E)
             (case map_of ?m ''content'' of None \<Rightarrow> JStr [] | Some t \<Rightarrow> t) = Inr ''hello''"
    by (simp add: example_env_def)
  have r': "''user'' = (if ''user'' = ''assistant'' then ''model'' else ''user'')" by simp
  have bye: "message_contents ?E (JObj [(''content'', JStr ''bye'')])
             = [\<lparr>role = ''user'', parts = [Part_from_text ''bye'']\<rparr>]"
    "message_trace ?E j (JObj [(''content'', JStr ''bye'')])
     = [Print (DebugMessage j ''user'' True False), Print (DebugAdding 1 ''user'')]" for j
    by (simp_all add: message_contents_def message_trace_def chat_message_def example_env_def
                      dict_get_def Let_def emit_def initial_world_def)
  have ex: "extract_json ?E (extract_text (text_answer healthy_text))
            = Inr (JObj [(''status'', JStr ''healthy'')])"
    by (simp add: extract_json_def extract_text_def text_answer_def healthy_text_def
                  str_find_def str_rfind_def slice_def example_env_def Let_def)
  have gm: "GEMINI_MODEL ?E = ''gemini-3-flash-preview''" by (simp add: example_env_def)
  have H: "dict_get ?payload ''messages'' = JArr ([] @ JObj ?m # [JObj [(''content'', JStr ''bye'')]])
          \<and> (\<forall>msg \<in> set ([] @ [JObj [(''content'', JStr ''bye'')]]). well_formed_message msg)
          \<and> (if truthy (dict_get ?payload ''plant_context'')
               then dict_get ?payload ''plant_context'' else JObj []) = JObj []
          \<and> client_ready ?E s
          \<and> ?contents =
               [\<lparr>role = ''user'', parts = [Part_from_text (build_chat_prompt ?E [])]\<rparr>,
                \<lparr>role = ''model'', parts = [Part_from_text
                   ''Understood. I'll provide plant care assistance with JSON responses.'']\<rparr>]
               @ concat (map (message_contents ?E) [])
               @ (if ''hello'' \<noteq> []
                  then [\<lparr>role = ''user'', parts = [Part_from_text ''hello'']\<rparr>] else [])
               @ concat (map (message_contents ?E) [JObj [(''content'', JStr ''bye'')]])" for s
    by (simp add: dict_get_def bye client_ready_def) (simp add: example_env_def)
  have R: "remote ?E (length (filter is_Generate (trace s))) (GEMINI_MODEL ?E) ?contents
             = Inr (text_answer healthy_text)
           \<and> extract_json ?E (extract_text (text_answer healthy_text))
             = Inr (JObj [(''status'', JStr ''healthy'')])" for s
    using ex by (simp add: example_env_def)
  note inst = chat_image_decode_failure[OF t d r c r', where payload = ?payload and pre = "[]"
        and post = "[JObj [(''content'', JStr ''bye'')]]" and ctx = "[]"
        and contents = ?contents and resp = "text_answer healthy_text"
        and data = "JObj [(''status'', JStr ''healthy'')]", THEN conjunct2, THEN conjunct1,
        THEN mp, OF H]
  have hd: "handle ?E (chat_request ?payload) initial_world
            = (json_response (JObj [(''status'', JStr ''healthy'')]) 200,
               snd (chat ?E ?payload (emit Invoke initial_world)))"
    by (rule inst[of initial_world, THEN conjunct2, THEN mp, OF R])
  have ch: "snd (chat ?E ?payload (emit Invoke initial_world))
            = (emit Invoke initial_world)\<lparr>client := True,
                 trace := trace (emit Invoke initial_world)
                   @ [Print (DebugReceived (Suc (length ([]::json list)
                         + length [JObj [(''content'', JStr ''bye'')]]))),
                      Print (DebugContext (JObj []))]
                   @ concat (map (\<lambda>(j, msg). message_trace ?E j msg) (enumerate 0 []))
                   @ [Print (DebugMessage (length ([]::json list)) ''user'' (''hello'' \<noteq> []) True),
                      Print (WarningDecode (length ([]::json list)) (ValueError ''Incorrect padding''))]
                   @ (if ''hello'' \<noteq> [] then [Print (DebugAdding 1 ''user'')] else [])
                   @ concat (map (\<lambda>(j, msg). message_trace ?E j msg)
                               (enumerate (Suc (length ([]::json list)))
                                  [JObj [(''content'', JStr ''bye'')]]))
                   @ [Print (DebugTotal (length ?contents)),
                      Generate (GEMINI_MODEL ?E) ?contents]\<rparr>"
    using inst[of "emit Invoke initial_world", THEN conjunct1] by simp
  show ?thesis
    unfolding hd fst_conv snd_conv ch
    using d by (simp add: gm bye emit_def initial_world_def dict_get_def)
qed

section \<open>Responses without text\<close>







end
